theory Spec2Isabelle
  imports Complex_Main "HOL-Library.AList" "HOL-Library.Sublist"
begin

section \<open>The evaluation engine of \<^verbatim>\<open>auditor/evaluation/generative.py\<close>\<close>

text \<open>
  The class \<^verbatim>\<open>LLMEval\<close> drives three collaborators: the language model
  (\<^verbatim>\<open>self.llm\<close>), the paraphraser (\<^verbatim>\<open>PerturbText\<close>) and the behaviour check
  (\<^verbatim>\<open>self.expected_behavior\<close>). Each of them may raise and may answer differently on
  every call, so a collaborator is a function of an abstract world \<open>'w\<close> that returns its
  outcome (\<open>Inl\<close> the exception raised, \<open>Inr\<close> the value returned) and the next world.
  The engine threads the world through the calls in program order and records every call,
  with its arguments and its outcome, so that "which calls were made, in which order" is a
  property of the final state.
\<close>

subsection \<open>Values, exceptions, collaborators\<close>

text \<open>The Python values an attribute of the model object may hold.\<close>

datatype pyval = PyStr string | PyFloat real | PyInt int | PyNone

text \<open>
  Exceptions: \<open>IndexError\<close> is the one the engine's own code can raise
  (\<^verbatim>\<open>perturbed_dataset.data[0]\<close>); everything a collaborator raises is an
  \<open>Exception\<close> identified by its text.
\<close>

datatype exn = IndexError | Exception string

datatype LLMEvalType = robustness | correctness

text \<open>
  \<^verbatim>\<open>self.llm\<close>: calling it (followed by \<^verbatim>\<open>str\<close>, as in \<^verbatim>\<open>str(self.llm(llm_input))\<close>)
  is \<open>generate\<close>; the three attributes probed with \<^verbatim>\<open>hasattr\<close> are optional,
  \<open>None\<close> when the object does not have the attribute.
\<close>

record 'w BaseLLM =
  generate :: "string \<Rightarrow> 'w \<Rightarrow> (exn + string) \<times> 'w"
  attr_llm_type :: "pyval option"
  attr_temperature :: "pyval option"
  attr_model_name :: "pyval option"

text \<open>\<^verbatim>\<open>self.expected_behavior\<close>: the method \<^verbatim>\<open>check\<close> and the attribute \<^verbatim>\<open>descriptor\<close>.\<close>

record 'w SimilarGeneration =
  check :: "string \<Rightarrow> string list \<Rightarrow> 'w \<Rightarrow> (exn + (bool \<times> real) list) \<times> 'w"
  descriptor :: string

record 'w LLMEval =
  llm :: "'w BaseLLM"
  expected_behavior :: "'w SimilarGeneration"

text \<open>
  \<^verbatim>\<open>PerturbText(texts, ner_pipeline=None, batch_size=..., perturbations_per_sample=...)\<close>
  followed by \<^verbatim>\<open>.paraphrase(temperature=...)\<close> and the read of \<^verbatim>\<open>.data\<close>: one
  collaborator call with arguments texts, batch size, perturbations per sample and
  temperature. The class is imported by the module, so the functions that use it take it as
  a parameter.
\<close>

type_synonym 'w PerturbText =
  "string list \<Rightarrow> int \<Rightarrow> int \<Rightarrow> real option \<Rightarrow> 'w \<Rightarrow> (exn + string list list) \<times> 'w"

text \<open>The record of a collaborator call: its arguments and its outcome.\<close>

datatype call =
    LLMCall string "exn + string"
  | PerturbTextCall "string list" int int "real option" "exn + string list list"
  | CheckCall string "string list" "exn + (bool \<times> real) list"

datatype log_level = DEBUG | ERROR

record 'w eval_state =
  world :: 'w
  calls :: "call list"
  logs :: "(log_level \<times> string) list"

text \<open>
  \<^verbatim>\<open>LLMEvalResult\<close>: the keyword arguments of the constructor call at the end of
  \<^verbatim>\<open>_evaluate_generations\<close>, under their own names.
\<close>

record LLMEvalResult =
  original_prompt :: string
  pre_context :: "string option"
  post_context :: "string option"
  reference_generation :: string
  perturbed_prompts :: "string list"
  perturbed_generations :: "string list"
  generation_kwargs :: "(string \<times> pyval) list"
  result :: "bool list"
  metric :: "real list"
  expected_behavior_desc :: string
  evaluation_type :: LLMEvalType

subsection \<open>Sequencing with exceptions\<close>

text \<open>
  A step is a function from the state to an outcome and the next state. \<open>andthen m f\<close>
  runs \<open>m\<close>; an exception ends the run with the state reached, a value is handed to
  \<open>f\<close>.
\<close>

definition andthen ::
  "('s \<Rightarrow> (exn + 'a) \<times> 's) \<Rightarrow> ('a \<Rightarrow> 's \<Rightarrow> (exn + 'b) \<times> 's) \<Rightarrow> 's \<Rightarrow> (exn + 'b) \<times> 's" where
  "andthen m f s = (case m s of (Inl err, s') \<Rightarrow> (Inl err, s') | (Inr a, s') \<Rightarrow> f a s')"

definition return :: "'a \<Rightarrow> 's \<Rightarrow> (exn + 'a) \<times> 's" where
  "return a s = (Inr a, s)"

definition log :: "log_level \<Rightarrow> string \<Rightarrow> 'w eval_state \<Rightarrow> 'w eval_state" where
  "log lvl msg s = s\<lparr>logs := logs s @ [(lvl, msg)]\<rparr>"

text \<open>Calling a collaborator: the world moves on and the call is recorded.\<close>

definition call_llm :: "'w LLMEval \<Rightarrow> string \<Rightarrow> 'w eval_state \<Rightarrow> (exn + string) \<times> 'w eval_state" where
  "call_llm self llm_input s =
     (case generate (llm self) llm_input (world s) of
        (r, w') \<Rightarrow> (r, s\<lparr>world := w', calls := calls s @ [LLMCall llm_input r]\<rparr>))"

definition call_perturb_text ::
  "'w PerturbText \<Rightarrow> string list \<Rightarrow> int \<Rightarrow> int \<Rightarrow> real option \<Rightarrow> 'w eval_state
     \<Rightarrow> (exn + string list list) \<times> 'w eval_state" where
  "call_perturb_text PT texts batch_size n temp s =
     (case PT texts batch_size n temp (world s) of
        (r, w') \<Rightarrow> (r, s\<lparr>world := w', calls := calls s @ [PerturbTextCall texts batch_size n temp r]\<rparr>))"

definition call_check ::
  "'w LLMEval \<Rightarrow> string \<Rightarrow> string list \<Rightarrow> 'w eval_state \<Rightarrow> (exn + (bool \<times> real) list) \<times> 'w eval_state" where
  "call_check self ref gens s =
     (case check (expected_behavior self) ref gens (world s) of
        (r, w') \<Rightarrow> (r, s\<lparr>world := w', calls := calls s @ [CheckCall ref gens r]\<rparr>))"

subsection \<open>The methods of \<^verbatim>\<open>LLMEval\<close>\<close>

text \<open>\<^verbatim>\<open>construct_llm_input\<close> (lines 140-153).\<close>

definition construct_llm_input :: "string \<Rightarrow> string option \<Rightarrow> string option \<Rightarrow> string \<Rightarrow> string" where
  "construct_llm_input prompt pre_ctx post_ctx delimiter =
     (let full_prompt = (case pre_ctx of Some pre \<Rightarrow> pre @ delimiter @ prompt | None \<Rightarrow> prompt)
      in case post_ctx of Some post \<Rightarrow> full_prompt @ delimiter @ post | None \<Rightarrow> full_prompt)"

text \<open>
  \<^verbatim>\<open>_get_generation\<close> (lines 121-138): the input is built with the default delimiter, a
  single blank; an exception is logged and raised again.
\<close>

definition get_generation ::
  "'w LLMEval \<Rightarrow> string \<Rightarrow> string option \<Rightarrow> string option \<Rightarrow> 'w eval_state \<Rightarrow> (exn + string) \<times> 'w eval_state" where
  "get_generation self prompt pre_ctx post_ctx s =
     (let llm_input = construct_llm_input prompt pre_ctx post_ctx '' ''
      in case call_llm self llm_input s of
           (Inl err, s') \<Rightarrow> (Inl err, log ERROR ''Unable to fetch generations from the model.'' s')
         | (Inr response, s') \<Rightarrow> (Inr response, s'))"

text \<open>
  \<^verbatim>\<open>generate_alternative_prompts\<close> (lines 155-185). \<^verbatim>\<open>data[0]\<close> raises
  \<open>IndexError\<close> on an empty list; the slice \<^verbatim>\<open>[1:]\<close> never raises.
\<close>

definition generate_alternative_prompts ::
  "'w PerturbText \<Rightarrow> string \<Rightarrow> int \<Rightarrow> real option \<Rightarrow> bool \<Rightarrow> 'w eval_state
     \<Rightarrow> (exn + string list) \<times> 'w eval_state" where
  "generate_alternative_prompts PT prompt perturbations_per_sample temp return_original =
     andthen (call_perturb_text PT [prompt] 1 perturbations_per_sample temp)
       (\<lambda>data s. case data of
            [] \<Rightarrow> (Inl IndexError, s)
          | row # _ \<Rightarrow> if return_original then (Inr row, s) else (Inr (drop 1 row), s))"

text \<open>
  \<^verbatim>\<open>_get_generation_details\<close> (lines 187-196). The dictionary is an association list in
  insertion order; \<open>AList.update\<close> overwrites an existing key in place and appends a new
  one, as the assignment \<^verbatim>\<open>details[k] = v\<close> does.
\<close>

definition get_generation_details :: "'w LLMEval \<Rightarrow> (string \<times> pyval) list" where
  "get_generation_details self =
     (let details = [];
          details = (case attr_llm_type (llm self) of
                       Some v \<Rightarrow> AList.update ''Provider'' v details | None \<Rightarrow> details);
          details = (case attr_temperature (llm self) of
                       Some v \<Rightarrow> AList.update ''Temperature'' v details | None \<Rightarrow> details);
          details = (case attr_model_name (llm self) of
                       Some v \<Rightarrow> AList.update ''Model Name'' v details | None \<Rightarrow> details)
      in details)"

text \<open>
  The loop of lines 93-100: one \<^verbatim>\<open>_get_generation\<close> per prompt, in order, each answer
  appended to \<^verbatim>\<open>alternative_generations\<close>; an exception leaves the loop.
\<close>

fun fetch_generations ::
  "'w LLMEval \<Rightarrow> string option \<Rightarrow> string option \<Rightarrow> string list \<Rightarrow> string list \<Rightarrow> 'w eval_state
     \<Rightarrow> (exn + string list) \<times> 'w eval_state" where
  "fetch_generations self pre_ctx post_ctx [] alternative_generations s =
     (Inr alternative_generations, s)"
| "fetch_generations self pre_ctx post_ctx (alt_prompt # rest) alternative_generations s =
     (case get_generation self alt_prompt pre_ctx post_ctx s of
        (Inl err, s') \<Rightarrow> (Inl err, s')
      | (Inr resp, s') \<Rightarrow>
          fetch_generations self pre_ctx post_ctx rest (alternative_generations @ [resp]) s')"

text \<open>\<^verbatim>\<open>_evaluate_generations\<close> (lines 35-119).\<close>

definition evaluate_generations ::
  "'w LLMEval \<Rightarrow> 'w PerturbText \<Rightarrow> string \<Rightarrow> LLMEvalType \<Rightarrow> int \<Rightarrow> string option \<Rightarrow> string option
     \<Rightarrow> string option \<Rightarrow> string list option \<Rightarrow> 'w eval_state \<Rightarrow> (exn + LLMEvalResult) \<times> 'w eval_state" where
  "evaluate_generations self PT prompt eval_type perturbations_per_sample pre_ctx post_ctx
       ref_generation prompt_perturbations =
     andthen
       (case ref_generation of
          None \<Rightarrow> (\<lambda>s. get_generation self prompt pre_ctx post_ctx
                          (log DEBUG (''Fetching reference generation for the prompt: '' @ prompt) s))
        | Some r \<Rightarrow> return r)
       (\<lambda>ref_generation.
     andthen
       (case prompt_perturbations of
          None \<Rightarrow> generate_alternative_prompts PT prompt perturbations_per_sample (Some 0) False
        | Some ps \<Rightarrow> return ps)
       (\<lambda>prompt_perturbations.
     let evaluate_prompts =
           (if eval_type = correctness then [prompt] @ prompt_perturbations
            else prompt_perturbations)
     in
     andthen (fetch_generations self pre_ctx post_ctx evaluate_prompts [])
       (\<lambda>alternative_generations.
     andthen (call_check self ref_generation alternative_generations)
       (\<lambda>m.
     return
       \<lparr>original_prompt = prompt,
        pre_context = pre_ctx,
        post_context = post_ctx,
        reference_generation = ref_generation,
        perturbed_prompts = evaluate_prompts,
        perturbed_generations = alternative_generations,
        generation_kwargs = get_generation_details self,
        result = map fst m,
        metric = map snd m,
        expected_behavior_desc = descriptor (expected_behavior self),
        evaluation_type = eval_type\<rparr>))))"

text \<open>\<^verbatim>\<open>evaluate_prompt_robustness\<close> (lines 198-234): no reference parameter.\<close>

definition evaluate_prompt_robustness ::
  "'w LLMEval \<Rightarrow> 'w PerturbText \<Rightarrow> string \<Rightarrow> int \<Rightarrow> string option \<Rightarrow> string option
     \<Rightarrow> string list option \<Rightarrow> 'w eval_state \<Rightarrow> (exn + LLMEvalResult) \<times> 'w eval_state" where
  "evaluate_prompt_robustness self PT prompt perturbations_per_sample pre_ctx post_ctx
       prompt_perturbations =
     evaluate_generations self PT prompt robustness perturbations_per_sample pre_ctx post_ctx
       None prompt_perturbations"

text \<open>\<^verbatim>\<open>evaluate_prompt_correctness\<close> (lines 236-274): the reference is a string.\<close>

definition evaluate_prompt_correctness ::
  "'w LLMEval \<Rightarrow> 'w PerturbText \<Rightarrow> string \<Rightarrow> string \<Rightarrow> int \<Rightarrow> string option \<Rightarrow> string option
     \<Rightarrow> string list option \<Rightarrow> 'w eval_state \<Rightarrow> (exn + LLMEvalResult) \<times> 'w eval_state" where
  "evaluate_prompt_correctness self PT prompt ref_generation perturbations_per_sample pre_ctx
       post_ctx alternative_prompts =
     evaluate_generations self PT prompt correctness perturbations_per_sample pre_ctx post_ctx
       (Some ref_generation) alternative_prompts"

subsection \<open>Vocabulary for the recorded calls\<close>

text \<open>The calls a run added to the record: those of the final state beyond the initial ones.\<close>

definition new_calls :: "'w eval_state \<Rightarrow> 'w eval_state \<Rightarrow> call list" where
  "new_calls s s' = drop (length (calls s)) (calls s')"

fun is_llm_call :: "call \<Rightarrow> bool" where
  "is_llm_call (LLMCall inp out) = True"
| "is_llm_call c = False"

fun is_perturb_call :: "call \<Rightarrow> bool" where
  "is_perturb_call (PerturbTextCall texts b n temp out) = True"
| "is_perturb_call c = False"

fun is_check_call :: "call \<Rightarrow> bool" where
  "is_check_call (CheckCall ref gens out) = True"
| "is_check_call c = False"

fun call_input :: "call \<Rightarrow> string" where
  "call_input (LLMCall inp out) = inp"
| "call_input c = []"

text \<open>
  A model call that answered: the input assembled from prompt \<open>p\<close> and the contexts, and
  the answer \<open>g\<close>. \<open>fetch_calls\<close> pairs a list of prompts with a list of answers,
  position by position.
\<close>

definition fetch_call :: "string option \<Rightarrow> string option \<Rightarrow> string \<Rightarrow> string \<Rightarrow> call" where
  "fetch_call pre_ctx post_ctx p g = LLMCall (construct_llm_input p pre_ctx post_ctx '' '') (Inr g)"

definition fetch_calls :: "string option \<Rightarrow> string option \<Rightarrow> string list \<Rightarrow> string list \<Rightarrow> call list" where
  "fetch_calls pre_ctx post_ctx ps gs = map (\<lambda>(p, g). fetch_call pre_ctx post_ctx p g) (zip ps gs)"

text \<open>
  The calls of the reference stage when it succeeds with reference \<open>ref\<close>: one model call
  when the caller gave no reference, none otherwise.
\<close>

definition reference_calls ::
  "string option \<Rightarrow> string option \<Rightarrow> string \<Rightarrow> string option \<Rightarrow> string \<Rightarrow> call list" where
  "reference_calls pre_ctx post_ctx prompt refg ref =
     (case refg of None \<Rightarrow> [fetch_call pre_ctx post_ctx prompt ref] | Some x \<Rightarrow> [])"

text \<open>
  The calls \<open>pertc\<close> of the candidate stage when it succeeds with candidates \<open>cands\<close>:
  none when the caller gave the candidates, otherwise one paraphrase call whose first row,
  less its first entry, is the candidate list.
\<close>

definition candidates_from ::
  "string \<Rightarrow> int \<Rightarrow> string list option \<Rightarrow> call list \<Rightarrow> string list \<Rightarrow> bool" where
  "candidates_from prompt n perts pertc cands =
     (case perts of
        Some ps \<Rightarrow> pertc = [] \<and> cands = ps
      | None \<Rightarrow> (\<exists>row rest. pertc = [PerturbTextCall [prompt] 1 n (Some 0) (Inr (row # rest))]
                   \<and> cands = drop 1 row))"

subsection \<open>Concrete collaborators\<close>

text \<open>
  A model that answers \<open>4\<close> except on the listed inputs, where it raises; a paraphraser
  that returns, for each text, the text and two rephrasings; a behaviour check that passes
  the generations equal to the reference. The world is trivial.
\<close>

definition stub_llm :: "string list \<Rightarrow> unit BaseLLM" where
  "stub_llm failing =
     \<lparr>generate = (\<lambda>inp w. (if inp \<in> set failing then Inl (Exception ''timeout'') else Inr ''4'', w)),
      attr_llm_type = Some (PyStr ''openai''),
      attr_temperature = Some (PyFloat 0.7),
      attr_model_name = None\<rparr>"

definition stub_behavior :: "unit SimilarGeneration" where
  "stub_behavior =
     \<lparr>check = (\<lambda>ref gens w. (Inr (map (\<lambda>g. (g = ref, if g = ref then 1 else 0)) gens), w)),
      descriptor = ''Model generations are similar to the reference''\<rparr>"

definition stub_eval :: "string list \<Rightarrow> unit LLMEval" where
  "stub_eval failing = \<lparr>llm = stub_llm failing, expected_behavior = stub_behavior\<rparr>"

definition stub_perturb :: "unit PerturbText" where
  "stub_perturb texts batch_size n temp w =
     (Inr (map (\<lambda>t. [t, ''How much is 2 plus 2?'', ''Sum of 2 and 2?'']) texts), w)"

definition init_state :: "unit eval_state" where
  "init_state = \<lparr>world = (), calls = [], logs = []\<rparr>"

subsection \<open>What the collaborators were asked\<close>

text \<open>
  The record is written by the engine, so a statement about the record alone does not say
  that a collaborator was run. \<open>replay\<close> runs the collaborators themselves on a list
  of recorded calls, from a given world: each call is made with the recorded arguments at
  the world the previous call left, and its outcome must be the recorded one. The value is
  the world after the last call, or \<open>None\<close> when some recorded outcome is not what the
  collaborator answers.
\<close>

fun replay :: "'w LLMEval \<Rightarrow> 'w PerturbText \<Rightarrow> call list \<Rightarrow> 'w \<Rightarrow> 'w option" where
  "replay self PT [] w = Some w"
| "replay self PT (LLMCall inp out # cs) w =
     (case generate (llm self) inp w of
        (r, w') \<Rightarrow> if r = out then replay self PT cs w' else None)"
| "replay self PT (PerturbTextCall texts b n temp out # cs) w =
     (case PT texts b n temp w of
        (r, w') \<Rightarrow> if r = out then replay self PT cs w' else None)"
| "replay self PT (CheckCall ref gens out # cs) w =
     (case check (expected_behavior self) ref gens w of
        (r, w') \<Rightarrow> if r = out then replay self PT cs w' else None)"

text \<open>
  A step is truthful when the calls it adds to the record replay from the world it started
  in to the world it ends in: it ran the collaborators as recorded, in that order, and
  nothing else moved the world.
\<close>

definition truthful ::
  "'w LLMEval \<Rightarrow> 'w PerturbText \<Rightarrow> ('w eval_state \<Rightarrow> (exn + 'a) \<times> 'w eval_state) \<Rightarrow> bool" where
  "truthful self PT m =
     (\<forall>s out s'. m s = (out, s') \<longrightarrow>
        (\<exists>cs. calls s' = calls s @ cs \<and> replay self PT cs (world s) = Some (world s')))"

text \<open>
  The model's completions for a list of inputs, asked one after the other from world
  \<open>w\<close>: the answers in the order of the inputs and the world after the last one, or the
  first exception.
\<close>

fun model_answers :: "'w BaseLLM \<Rightarrow> string list \<Rightarrow> 'w \<Rightarrow> (exn + string list) \<times> 'w" where
  "model_answers m [] w = (Inr [], w)"
| "model_answers m (inp # inps) w =
     (case generate m inp w of
        (Inl e, w') \<Rightarrow> (Inl e, w')
      | (Inr g, w') \<Rightarrow>
          (case model_answers m inps w' of
             (Inl e, w'') \<Rightarrow> (Inl e, w'')
           | (Inr gs, w'') \<Rightarrow> (Inr (g # gs), w'')))"

subsection \<open>Collaborators with a memory\<close>

text \<open>
  The world counts the calls made to the model and to the paraphraser. The model raises on
  the listed inputs and otherwise answers its input behind one \<open>#\<close> for every call
  made to it before, so an answer shows which input it answers and when it was asked.
\<close>

definition echo_llm :: "string list \<Rightarrow> (nat \<times> nat) BaseLLM" where
  "echo_llm failing =
     \<lparr>generate = (\<lambda>inp w.
        (if inp \<in> set failing then Inl (Exception ''timeout'')
         else Inr (replicate (fst w) CHR ''#'' @ inp),
         (Suc (fst w), snd w))),
      attr_llm_type = Some (PyStr ''echo''),
      attr_temperature = None,
      attr_model_name = None\<rparr>"

definition echo_behavior :: "(nat \<times> nat) SimilarGeneration" where
  "echo_behavior =
     \<lparr>check = (\<lambda>ref gens w. (Inr (map (\<lambda>g. (g = ref, if g = ref then 1 else 0)) gens), w)),
      descriptor = ''Model generations are similar to the reference''\<rparr>"

definition echo_eval :: "string list \<Rightarrow> (nat \<times> nat) LLMEval" where
  "echo_eval failing = \<lparr>llm = echo_llm failing, expected_behavior = echo_behavior\<rparr>"

definition counting_perturb :: "(nat \<times> nat) PerturbText" where
  "counting_perturb texts batch_size n temp w =
     (Inr (map (\<lambda>t. [t, ''How much is 2 plus 2?'', ''Sum of 2 and 2?'']) texts),
      (fst w, Suc (snd w)))"

definition start_state :: "(nat \<times> nat) eval_state" where
  "start_state = \<lparr>world = (0, 0), calls = [], logs = []\<rparr>"

section \<open>The calls of a run\<close>

text \<open>
  Each stage of \<^verbatim>\<open>_evaluate_generations\<close> appends its calls to the record. The two
  lemmas \<open>evaluate_generations_success\<close> and \<open>evaluate_generations_failure\<close> give
  the whole record of a run that returned and of a run that raised.
\<close>

lemma andthen_Inr:
  assumes "andthen m f s = (Inr b, s')"
  obtains a s1 where "m s = (Inr a, s1)" and "f a s1 = (Inr b, s')"
  using assms by (auto simp: andthen_def split: prod.splits sum.splits)

lemma andthen_Inl:
  assumes "andthen m f s = (Inl e, s')"
  obtains (first) "m s = (Inl e, s')"
  | (second) a s1 where "m s = (Inr a, s1)" and "f a s1 = (Inl e, s')"
  using assms by (auto simp: andthen_def split: prod.splits sum.splits)

lemma get_generation_calls:
  assumes "get_generation self p pre_ctx post_ctx s = (r, s')"
  shows "calls s' = calls s @ [LLMCall (construct_llm_input p pre_ctx post_ctx '' '') r]"
  using assms
  by (auto simp: get_generation_def call_llm_def log_def Let_def split: prod.splits sum.splits)

lemma fetch_generations_success:
  assumes "fetch_generations self pre_ctx post_ctx ps acc s = (Inr gens, s')"
  shows "\<exists>new. gens = acc @ new \<and> length new = length ps
           \<and> calls s' = calls s @ fetch_calls pre_ctx post_ctx ps new"
  using assms
proof (induction ps arbitrary: acc s)
  case Nil
  then show ?case by (simp add: fetch_calls_def)
next
  case (Cons p ps)
  from Cons.prems obtain resp s1 where
    g: "get_generation self p pre_ctx post_ctx s = (Inr resp, s1)" and
    rest: "fetch_generations self pre_ctx post_ctx ps (acc @ [resp]) s1 = (Inr gens, s')"
    by (auto split: prod.splits sum.splits)
  from Cons.IH [OF rest] obtain new where
    new: "gens = (acc @ [resp]) @ new" "length new = length ps"
      "calls s' = calls s1 @ fetch_calls pre_ctx post_ctx ps new"
    by blast
  from get_generation_calls [OF g] new
  have "gens = acc @ (resp # new) \<and> length (resp # new) = length (p # ps)
      \<and> calls s' = calls s @ fetch_calls pre_ctx post_ctx (p # ps) (resp # new)"
    by (simp add: fetch_calls_def fetch_call_def)
  then show ?case by blast
qed

lemma fetch_generations_failure:
  assumes "fetch_generations self pre_ctx post_ctx ps acc s = (Inl e, s')"
  shows "\<exists>k new. k < length ps \<and> length new = k
           \<and> calls s' = calls s @ fetch_calls pre_ctx post_ctx (take k ps) new
                @ [LLMCall (construct_llm_input (ps ! k) pre_ctx post_ctx '' '') (Inl e)]"
  using assms
proof (induction ps arbitrary: acc s)
  case Nil
  then show ?case by simp
next
  case (Cons p ps)
  show ?case
  proof (cases "get_generation self p pre_ctx post_ctx s")
    case (Pair r s1)
    show ?thesis
    proof (cases r)
      case (Inl err)
      with Pair Cons.prems have "err = e" "s1 = s'" by auto
      with Pair Inl get_generation_calls [of self p pre_ctx post_ctx s r s1]
      have "0 < length (p # ps) \<and> length ([]::string list) = 0
          \<and> calls s' = calls s @ fetch_calls pre_ctx post_ctx (take 0 (p # ps)) []
              @ [LLMCall (construct_llm_input ((p # ps) ! 0) pre_ctx post_ctx '' '') (Inl e)]"
        by (simp add: fetch_calls_def)
      then show ?thesis by blast
    next
      case (Inr resp)
      with Pair Cons.prems have
        rest: "fetch_generations self pre_ctx post_ctx ps (acc @ [resp]) s1 = (Inl e, s')"
        by simp
      from Cons.IH [OF rest] obtain k new where
        k: "k < length ps" "length new = k"
          "calls s' = calls s1 @ fetch_calls pre_ctx post_ctx (take k ps) new
             @ [LLMCall (construct_llm_input (ps ! k) pre_ctx post_ctx '' '') (Inl e)]"
        by blast
      from Pair Inr get_generation_calls [of self p pre_ctx post_ctx s r s1] k
      have "Suc k < length (p # ps) \<and> length (resp # new) = Suc k
          \<and> calls s' = calls s @ fetch_calls pre_ctx post_ctx (take (Suc k) (p # ps)) (resp # new)
              @ [LLMCall (construct_llm_input ((p # ps) ! Suc k) pre_ctx post_ctx '' '') (Inl e)]"
        by (simp add: fetch_calls_def fetch_call_def)
      then show ?thesis by blast
    qed
  qed
qed

lemma reference_stage:
  assumes "(case refg of
              None \<Rightarrow> (\<lambda>s. get_generation self prompt pre_ctx post_ctx (log DEBUG msg s))
            | Some r \<Rightarrow> return r) s = (out, s1)"
  shows "calls s1 = calls s @ (case refg of
            None \<Rightarrow> [LLMCall (construct_llm_input prompt pre_ctx post_ctx '' '') out]
          | Some r \<Rightarrow> [])"
    and "\<And>x. refg = Some x \<Longrightarrow> out = Inr x"
  using assms
  by (auto simp: return_def log_def dest!: get_generation_calls split: option.splits)

lemma call_perturb_text_calls:
  assumes "call_perturb_text PT texts b n temp s = (out, s1)"
  shows "calls s1 = calls s @ [PerturbTextCall texts b n temp out]"
  using assms by (auto simp: call_perturb_text_def split: prod.splits)

lemma generate_alternative_prompts_success:
  assumes "generate_alternative_prompts PT prompt n temp ro s = (Inr cands, s1)"
  shows "\<exists>row rest. calls s1 = calls s @ [PerturbTextCall [prompt] 1 n temp (Inr (row # rest))]
           \<and> cands = (if ro then row else drop 1 row)"
proof -
  from assms obtain data s0 where
    c: "call_perturb_text PT [prompt] 1 n temp s = (Inr data, s0)" and
    d: "(case data of [] \<Rightarrow> (Inl IndexError, s0)
          | row # x \<Rightarrow> if ro then (Inr row, s0) else (Inr (drop 1 row), s0)) = (Inr cands, s1)"
    unfolding generate_alternative_prompts_def by (erule andthen_Inr)
  from d obtain row rest where "data = row # rest" "s0 = s1"
    "cands = (if ro then row else drop 1 row)"
    by (cases data) (auto split: if_splits)
  with call_perturb_text_calls [OF c] show ?thesis by blast
qed

lemma generate_alternative_prompts_failure:
  assumes "generate_alternative_prompts PT prompt n temp ro s = (Inl e, s1)"
  shows "calls s1 = calls s @ [PerturbTextCall [prompt] 1 n temp (Inl e)]
       \<or> (e = IndexError \<and> calls s1 = calls s @ [PerturbTextCall [prompt] 1 n temp (Inr [])])"
  using assms unfolding generate_alternative_prompts_def
proof (cases rule: andthen_Inl)
  case first
  from call_perturb_text_calls [OF first] show ?thesis by simp
next
  case (second data s0)
  from second(2) have "data = []" "e = IndexError" "s0 = s1"
    by (cases data; simp split: if_splits)+
  with call_perturb_text_calls [OF second(1)] show ?thesis by simp
qed

lemma call_check_calls:
  assumes "call_check self ref gens s = (out, s1)"
  shows "calls s1 = calls s @ [CheckCall ref gens out]"
  using assms by (auto simp: call_check_def split: prod.splits)

lemma call_check_result:
  assumes "call_check self ref gens s = (out, s1)"
  shows "check (expected_behavior self) ref gens (world s) = (out, world s1)"
  using assms by (auto simp: call_check_def split: prod.splits)

lemma evaluate_generations_success:
  assumes "evaluate_generations self PT prompt et n pre_ctx post_ctx refg perts s = (Inr r, s')"
  shows "\<exists>pertc cands m.
      calls s' = calls s @ reference_calls pre_ctx post_ctx prompt refg (reference_generation r)
        @ pertc
        @ fetch_calls pre_ctx post_ctx (perturbed_prompts r) (perturbed_generations r)
        @ [CheckCall (reference_generation r) (perturbed_generations r) (Inr m)]
    \<and> candidates_from prompt n perts pertc cands
    \<and> perturbed_prompts r = (if et = correctness then prompt # cands else cands)
    \<and> length (perturbed_generations r) = length (perturbed_prompts r)
    \<and> (\<forall>x. refg = Some x \<longrightarrow> reference_generation r = x)
    \<and> result r = map fst m \<and> metric r = map snd m
    \<and> (\<exists>w w'. check (expected_behavior self) (reference_generation r)
                  (perturbed_generations r) w = (Inr m, w'))"
proof -
  let ?eps = "\<lambda>cands. if et = correctness then [prompt] @ cands else cands"
  from assms obtain ref s1 where
    st1: "(case refg of
              None \<Rightarrow> (\<lambda>s. get_generation self prompt pre_ctx post_ctx
                   (log DEBUG (''Fetching reference generation for the prompt: '' @ prompt) s))
            | Some r \<Rightarrow> return r) s = (Inr ref, s1)"
    and rest1: "andthen
       (case perts of
          None \<Rightarrow> generate_alternative_prompts PT prompt n (Some 0) False
        | Some ps \<Rightarrow> return ps)
       (\<lambda>cands. andthen (fetch_generations self pre_ctx post_ctx (?eps cands) [])
       (\<lambda>gens. andthen (call_check self ref gens)
       (\<lambda>m. return
       \<lparr>original_prompt = prompt, pre_context = pre_ctx, post_context = post_ctx,
        reference_generation = ref, perturbed_prompts = ?eps cands,
        perturbed_generations = gens, generation_kwargs = get_generation_details self,
        result = map fst m, metric = map snd m,
        expected_behavior_desc = descriptor (expected_behavior self),
        evaluation_type = et\<rparr>))) s1 = (Inr r, s')"
    unfolding evaluate_generations_def Let_def by (erule andthen_Inr)
  from rest1 obtain cands s2 where
    st2: "(case perts of
          None \<Rightarrow> generate_alternative_prompts PT prompt n (Some 0) False
        | Some ps \<Rightarrow> return ps) s1 = (Inr cands, s2)"
    and rest2: "andthen (fetch_generations self pre_ctx post_ctx (?eps cands) [])
       (\<lambda>gens. andthen (call_check self ref gens)
       (\<lambda>m. return
       \<lparr>original_prompt = prompt, pre_context = pre_ctx, post_context = post_ctx,
        reference_generation = ref, perturbed_prompts = ?eps cands,
        perturbed_generations = gens, generation_kwargs = get_generation_details self,
        result = map fst m, metric = map snd m,
        expected_behavior_desc = descriptor (expected_behavior self),
        evaluation_type = et\<rparr>)) s2 = (Inr r, s')"
    by (erule andthen_Inr)
  from rest2 obtain gens s3 where
    st3: "fetch_generations self pre_ctx post_ctx (?eps cands) [] s2 = (Inr gens, s3)"
    and rest3: "andthen (call_check self ref gens)
       (\<lambda>m. return
       \<lparr>original_prompt = prompt, pre_context = pre_ctx, post_context = post_ctx,
        reference_generation = ref, perturbed_prompts = ?eps cands,
        perturbed_generations = gens, generation_kwargs = get_generation_details self,
        result = map fst m, metric = map snd m,
        expected_behavior_desc = descriptor (expected_behavior self),
        evaluation_type = et\<rparr>) s3 = (Inr r, s')"
    by (erule andthen_Inr)
  from rest3 obtain m s4 where
    st4: "call_check self ref gens s3 = (Inr m, s4)"
    and r: "r = \<lparr>original_prompt = prompt, pre_context = pre_ctx, post_context = post_ctx,
        reference_generation = ref, perturbed_prompts = ?eps cands,
        perturbed_generations = gens, generation_kwargs = get_generation_details self,
        result = map fst m, metric = map snd m,
        expected_behavior_desc = descriptor (expected_behavior self),
        evaluation_type = et\<rparr>" and s4: "s4 = s'"
    by (auto elim!: andthen_Inr simp: return_def)
  have c1: "calls s1 = calls s @ reference_calls pre_ctx post_ctx prompt refg ref"
    using reference_stage(1) [OF st1]
    by (simp add: reference_calls_def fetch_call_def split: option.splits)
  have ref: "\<forall>x. refg = Some x \<longrightarrow> ref = x"
    using reference_stage(2) [OF st1] by simp
  have "\<exists>pertc. calls s2 = calls s1 @ pertc \<and> candidates_from prompt n perts pertc cands"
  proof (cases perts)
    case None
    with st2 have "generate_alternative_prompts PT prompt n (Some 0) False s1 = (Inr cands, s2)"
      by simp
    from generate_alternative_prompts_success [OF this] None show ?thesis
      by (auto simp: candidates_from_def)
  next
    case (Some ps)
    with st2 show ?thesis by (simp add: candidates_from_def return_def)
  qed
  then obtain pertc where
    c2: "calls s2 = calls s1 @ pertc" and cf: "candidates_from prompt n perts pertc cands"
    by blast
  from fetch_generations_success [OF st3] have
    c3: "calls s3 = calls s2 @ fetch_calls pre_ctx post_ctx (?eps cands) gens"
    and len: "length gens = length (?eps cands)"
    by auto
  from call_check_calls [OF st4] s4 have
    c4: "calls s' = calls s3 @ [CheckCall ref gens (Inr m)]" by simp
  have "calls s' = calls s @ reference_calls pre_ctx post_ctx prompt refg (reference_generation r)
        @ pertc
        @ fetch_calls pre_ctx post_ctx (perturbed_prompts r) (perturbed_generations r)
        @ [CheckCall (reference_generation r) (perturbed_generations r) (Inr m)]"
    using c1 c2 c3 c4 by (simp add: r)
  moreover have "perturbed_prompts r = (if et = correctness then prompt # cands else cands)"
    by (simp add: r)
  moreover have "length (perturbed_generations r) = length (perturbed_prompts r)"
    using len by (simp add: r)
  moreover have "\<forall>x. refg = Some x \<longrightarrow> reference_generation r = x"
    using ref by (simp add: r)
  moreover have "result r = map fst m \<and> metric r = map snd m"
    by (simp add: r)
  moreover have "\<exists>w w'. check (expected_behavior self) (reference_generation r)
                  (perturbed_generations r) w = (Inr m, w')"
    using call_check_result [OF st4] by (auto simp: r)
  ultimately show ?thesis using cf by blast
qed

lemma evaluate_generations_failure:
  assumes "evaluate_generations self PT prompt et n pre_ctx post_ctx refg perts s = (Inl e, s')"
  shows "(refg = None
        \<and> calls s' = calls s @ [LLMCall (construct_llm_input prompt pre_ctx post_ctx '' '') (Inl e)])
    \<or> (\<exists>ref d. perts = None \<and> (d = Inl e \<or> (d = Inr [] \<and> e = IndexError))
        \<and> calls s' = calls s @ reference_calls pre_ctx post_ctx prompt refg ref
             @ [PerturbTextCall [prompt] 1 n (Some 0) d])
    \<or> (\<exists>ref pertc cands gens k.
          candidates_from prompt n perts pertc cands
        \<and> k < length (if et = correctness then prompt # cands else cands)
        \<and> length gens = k
        \<and> calls s' = calls s @ reference_calls pre_ctx post_ctx prompt refg ref @ pertc
             @ fetch_calls pre_ctx post_ctx
                 (take k (if et = correctness then prompt # cands else cands)) gens
             @ [LLMCall (construct_llm_input
                   ((if et = correctness then prompt # cands else cands) ! k)
                   pre_ctx post_ctx '' '') (Inl e)])
    \<or> (\<exists>ref pertc cands gens.
          candidates_from prompt n perts pertc cands
        \<and> length gens = length (if et = correctness then prompt # cands else cands)
        \<and> (\<forall>x. refg = Some x \<longrightarrow> ref = x)
        \<and> calls s' = calls s @ reference_calls pre_ctx post_ctx prompt refg ref @ pertc
             @ fetch_calls pre_ctx post_ctx
                 (if et = correctness then prompt # cands else cands) gens
             @ [CheckCall ref gens (Inl e)])"
  (is "?A \<or> ?B \<or> ?C \<or> ?D")
  using assms [unfolded evaluate_generations_def Let_def]
proof (cases rule: andthen_Inl)
  case first
  have "refg = None"
    using first by (cases refg) (simp_all add: return_def)
  with reference_stage(1) [OF first] have ?A by simp
  then show ?thesis by blast
next
  case (second ref s1)
  have c1: "calls s1 = calls s @ reference_calls pre_ctx post_ctx prompt refg ref"
    using reference_stage(1) [OF second(1)]
    by (simp add: reference_calls_def fetch_call_def split: option.splits)
  have ref: "\<forall>x. refg = Some x \<longrightarrow> ref = x"
    using reference_stage(2) [OF second(1)] by simp
  from second(2) show ?thesis
  proof (cases rule: andthen_Inl)
    case first
    have none: "perts = None"
      using first by (cases perts) (simp_all add: return_def)
    with first have "generate_alternative_prompts PT prompt n (Some 0) False s1 = (Inl e, s')"
      by simp
    from generate_alternative_prompts_failure [OF this] c1 none have ?B
      by auto
    then show ?thesis by blast
  next
    case (second cands s2)
    have "\<exists>pertc. calls s2 = calls s1 @ pertc \<and> candidates_from prompt n perts pertc cands"
    proof (cases perts)
      case None
      with second(1)
      have "generate_alternative_prompts PT prompt n (Some 0) False s1 = (Inr cands, s2)"
        by simp
      from generate_alternative_prompts_success [OF this] None show ?thesis
        by (auto simp: candidates_from_def)
    next
      case (Some ps)
      with second(1) show ?thesis by (simp add: candidates_from_def return_def)
    qed
    then obtain pertc where
      c2: "calls s2 = calls s1 @ pertc" and cf: "candidates_from prompt n perts pertc cands"
      by blast
    from second(2) show ?thesis
    proof (cases rule: andthen_Inl)
      case first
      from fetch_generations_failure [OF first] obtain k gens where
        "k < length (if et = correctness then [prompt] @ cands else cands)"
        "length gens = k"
        "calls s' = calls s2 @ fetch_calls pre_ctx post_ctx
            (take k (if et = correctness then [prompt] @ cands else cands)) gens
          @ [LLMCall (construct_llm_input
               ((if et = correctness then [prompt] @ cands else cands) ! k)
               pre_ctx post_ctx '' '') (Inl e)]"
        by blast
      with c1 c2 cf have
        "candidates_from prompt n perts pertc cands
        \<and> k < length (if et = correctness then prompt # cands else cands)
        \<and> length gens = k
        \<and> calls s' = calls s @ reference_calls pre_ctx post_ctx prompt refg ref @ pertc
             @ fetch_calls pre_ctx post_ctx
                 (take k (if et = correctness then prompt # cands else cands)) gens
             @ [LLMCall (construct_llm_input
                   ((if et = correctness then prompt # cands else cands) ! k)
                   pre_ctx post_ctx '' '') (Inl e)]"
        by (cases "et = correctness") simp_all
      then have ?C by blast
      then show ?thesis by blast
    next
      case (second gens s3)
      from fetch_generations_success [OF second(1)] have
        c3: "calls s3 = calls s2 @ fetch_calls pre_ctx post_ctx
               (if et = correctness then [prompt] @ cands else cands) gens"
        and len: "length gens = length (if et = correctness then [prompt] @ cands else cands)"
        by auto
      from second(2) have chk: "call_check self ref gens s3 = (Inl e, s')"
        by (cases rule: andthen_Inl) (simp_all add: return_def)
      from call_check_calls [OF chk] c1 c2 c3 len cf ref have
        "candidates_from prompt n perts pertc cands
        \<and> length gens = length (if et = correctness then prompt # cands else cands)
        \<and> (\<forall>x. refg = Some x \<longrightarrow> ref = x)
        \<and> calls s' = calls s @ reference_calls pre_ctx post_ctx prompt refg ref @ pertc
             @ fetch_calls pre_ctx post_ctx
                 (if et = correctness then prompt # cands else cands) gens
             @ [CheckCall ref gens (Inl e)]"
        by (cases "et = correctness") simp_all
      then have ?D by blast
      then show ?thesis by blast
    qed
  qed
qed

lemma new_calls_append: "calls s' = calls s @ xs \<Longrightarrow> new_calls s s' = xs"
  by (simp add: new_calls_def)

lemma fetch_calls_Nil [simp]: "fetch_calls pre_ctx post_ctx [] gs = []"
  "fetch_calls pre_ctx post_ctx ps [] = []"
  by (simp_all add: fetch_calls_def)

lemma fetch_calls_Cons [simp]:
  "fetch_calls pre_ctx post_ctx (p # ps) (g # gs)
     = fetch_call pre_ctx post_ctx p g # fetch_calls pre_ctx post_ctx ps gs"
  by (simp add: fetch_calls_def)

lemma fetch_calls_member:
  "c \<in> set (fetch_calls pre_ctx post_ctx ps gs)
     \<Longrightarrow> \<exists>p g. p \<in> set ps \<and> c = LLMCall (construct_llm_input p pre_ctx post_ctx '' '') (Inr g)"
  by (auto simp: fetch_calls_def fetch_call_def dest: set_zip_leftD)

lemma reference_calls_member:
  "c \<in> set (reference_calls pre_ctx post_ctx prompt refg ref)
     \<Longrightarrow> c = LLMCall (construct_llm_input prompt pre_ctx post_ctx '' '') (Inr ref)"
  by (auto simp: reference_calls_def fetch_call_def split: option.splits)

lemma candidates_from_member:
  "candidates_from prompt n perts pertc cands \<Longrightarrow> c \<in> set pertc
     \<Longrightarrow> perts = None \<and> (\<exists>d. c = PerturbTextCall [prompt] 1 n (Some 0) d)"
  by (auto simp: candidates_from_def split: option.splits)

lemma filter_llm_fetch_calls [simp]:
  "filter is_llm_call (fetch_calls pre_ctx post_ctx ps gs) = fetch_calls pre_ctx post_ctx ps gs"
  by (auto simp: filter_id_conv fetch_call_def dest!: fetch_calls_member)

lemma filter_llm_reference_calls [simp]:
  "filter is_llm_call (reference_calls pre_ctx post_ctx prompt refg ref)
     = reference_calls pre_ctx post_ctx prompt refg ref"
  by (auto simp: filter_id_conv dest!: reference_calls_member)

lemma filter_llm_candidates:
  "candidates_from prompt n perts pertc cands \<Longrightarrow> filter is_llm_call pertc = []"
  by (auto simp: filter_empty_conv dest: candidates_from_member)

lemma filter_perturb_fetch_calls [simp]:
  "filter is_perturb_call (fetch_calls pre_ctx post_ctx ps gs) = []"
  by (auto simp: filter_empty_conv dest!: fetch_calls_member)

lemma filter_perturb_reference_calls [simp]:
  "filter is_perturb_call (reference_calls pre_ctx post_ctx prompt refg ref) = []"
  by (auto simp: filter_empty_conv dest!: reference_calls_member)

lemma filter_perturb_candidates:
  "candidates_from prompt n perts pertc cands \<Longrightarrow> filter is_perturb_call pertc = pertc"
  by (auto simp: filter_id_conv dest: candidates_from_member)

lemma call_input_fetch_calls:
  "map call_input (fetch_calls pre_ctx post_ctx ps gs)
     = map (\<lambda>p. construct_llm_input p pre_ctx post_ctx '' '') (take (length gs) ps)"
proof (induction ps arbitrary: gs)
  case Nil
  then show ?case by simp
next
  case (Cons p ps)
  then show ?case by (cases gs) (simp_all add: fetch_call_def)
qed

lemmas run_defs =
  evaluate_prompt_robustness_def evaluate_prompt_correctness_def evaluate_generations_def
  generate_alternative_prompts_def get_generation_def get_generation_details_def
  construct_llm_input_def call_llm_def call_perturb_text_def call_check_def
  andthen_def return_def log_def Let_def
  stub_llm_def stub_behavior_def stub_eval_def stub_perturb_def init_state_def
  new_calls_def fetch_calls_def fetch_call_def

text \<open>
  The five ways a run of \<^verbatim>\<open>_evaluate_generations\<close> can end, each with the calls it
  made: it returned; the reference fetch raised; the paraphrase stage raised; the fetch for
  the \<open>k\<close>-th evaluated prompt raised; the behaviour check raised.
\<close>

lemma evaluate_generations_cases [consumes 1, case_names returned reference_failed
    paraphrase_failed fetch_failed check_failed]:
  assumes "evaluate_generations self PT prompt et n pre_ctx post_ctx refg perts s = (out, s')"
  obtains
    (returned) r pertc cands m where
      "out = Inr r"
      "new_calls s s' = reference_calls pre_ctx post_ctx prompt refg (reference_generation r)
          @ pertc
          @ fetch_calls pre_ctx post_ctx (perturbed_prompts r) (perturbed_generations r)
          @ [CheckCall (reference_generation r) (perturbed_generations r) (Inr m)]"
      "candidates_from prompt n perts pertc cands"
      "perturbed_prompts r = (if et = correctness then prompt # cands else cands)"
      "length (perturbed_generations r) = length (perturbed_prompts r)"
      "\<forall>x. refg = Some x \<longrightarrow> reference_generation r = x"
  | (reference_failed) e where
      "out = Inl e" "refg = None"
      "new_calls s s' = [LLMCall (construct_llm_input prompt pre_ctx post_ctx '' '') (Inl e)]"
  | (paraphrase_failed) e ref d where
      "out = Inl e" "perts = None"
      "new_calls s s' = reference_calls pre_ctx post_ctx prompt refg ref
          @ [PerturbTextCall [prompt] 1 n (Some 0) d]"
  | (fetch_failed) e ref pertc cands gens k where
      "out = Inl e"
      "candidates_from prompt n perts pertc cands"
      "k < length (if et = correctness then prompt # cands else cands)"
      "length gens = k"
      "new_calls s s' = reference_calls pre_ctx post_ctx prompt refg ref @ pertc
          @ fetch_calls pre_ctx post_ctx
              (take k (if et = correctness then prompt # cands else cands)) gens
          @ [LLMCall (construct_llm_input
                ((if et = correctness then prompt # cands else cands) ! k)
                pre_ctx post_ctx '' '') (Inl e)]"
  | (check_failed) e ref pertc cands gens where
      "out = Inl e"
      "candidates_from prompt n perts pertc cands"
      "length gens = length (if et = correctness then prompt # cands else cands)"
      "\<forall>x. refg = Some x \<longrightarrow> ref = x"
      "new_calls s s' = reference_calls pre_ctx post_ctx prompt refg ref @ pertc
          @ fetch_calls pre_ctx post_ctx
              (if et = correctness then prompt # cands else cands) gens
          @ [CheckCall ref gens (Inl e)]"
proof (cases out)
  case (Inr r)
  with assms have
    "evaluate_generations self PT prompt et n pre_ctx post_ctx refg perts s = (Inr r, s')"
    by simp
  from evaluate_generations_success [OF this] Inr show ?thesis
    by (elim exE conjE) (rule returned, auto dest: new_calls_append)
next
  case (Inl e)
  with assms have
    "evaluate_generations self PT prompt et n pre_ctx post_ctx refg perts s = (Inl e, s')"
    by simp
  from evaluate_generations_failure [OF this] show ?thesis
  proof (elim disjE conjE exE)
    assume "refg = None"
      "calls s' = calls s @ [LLMCall (construct_llm_input prompt pre_ctx post_ctx '' '') (Inl e)]"
    with Inl show ?thesis by (intro reference_failed) (auto dest: new_calls_append)
  next
    fix ref d
    assume "perts = None" "calls s' = calls s @ reference_calls pre_ctx post_ctx prompt refg ref
             @ [PerturbTextCall [prompt] 1 n (Some 0) d]"
    with Inl show ?thesis by (intro paraphrase_failed) (auto dest: new_calls_append)
  next
    fix ref d
    assume "perts = None" "calls s' = calls s @ reference_calls pre_ctx post_ctx prompt refg ref
             @ [PerturbTextCall [prompt] 1 n (Some 0) d]"
    with Inl show ?thesis by (intro paraphrase_failed) (auto dest: new_calls_append)
  next
    fix ref pertc cands gens k
    assume cf: "candidates_from prompt n perts pertc cands"
      and k: "k < length (if et = correctness then prompt # cands else cands)"
      and len: "length gens = k"
      and c: "calls s' = calls s @ reference_calls pre_ctx post_ctx prompt refg ref @ pertc
             @ fetch_calls pre_ctx post_ctx
                 (take k (if et = correctness then prompt # cands else cands)) gens
             @ [LLMCall (construct_llm_input
                   ((if et = correctness then prompt # cands else cands) ! k)
                   pre_ctx post_ctx '' '') (Inl e)]"
    from Inl cf k len new_calls_append [OF c] show ?thesis by (rule fetch_failed)
  next
    fix ref pertc cands gens
    assume cf: "candidates_from prompt n perts pertc cands"
      and len: "length gens = length (if et = correctness then prompt # cands else cands)"
      and ref: "\<forall>x. refg = Some x \<longrightarrow> ref = x"
      and c: "calls s' = calls s @ reference_calls pre_ctx post_ctx prompt refg ref @ pertc
             @ fetch_calls pre_ctx post_ctx
                 (if et = correctness then prompt # cands else cands) gens
             @ [CheckCall ref gens (Inl e)]"
    from Inl cf len ref new_calls_append [OF c] show ?thesis by (rule check_failed)
  qed
qed

lemma construct_llm_input_prefix:
  "prefix (a @ d) (construct_llm_input p (Some a) post_ctx d)"
  by (cases post_ctx) (simp_all add: construct_llm_input_def)

lemma construct_llm_input_suffix:
  "suffix (d @ b) (construct_llm_input p pre_ctx (Some b) d)"
  by (cases pre_ctx) (simp_all add: construct_llm_input_def suffix_def)

lemma evaluate_generations_call_forms:
  assumes run: "evaluate_generations self PT prompt et n pre_ctx post_ctx refg perts s = (out, s')"
    and c: "c \<in> set (new_calls s s')"
  shows "(\<exists>p out. c = LLMCall (construct_llm_input p pre_ctx post_ctx '' '') out)
       \<or> (perts = None \<and> (\<exists>d. c = PerturbTextCall [prompt] 1 n (Some 0) d))
       \<or> (\<exists>ref gens out. c = CheckCall ref gens out \<and> (\<forall>x. refg = Some x \<longrightarrow> ref = x))"
  (is "?L \<or> ?P \<or> ?C")
proof -
  have refc: "?L" if "c \<in> set (reference_calls pre_ctx post_ctx prompt refg ref)" for ref
    using reference_calls_member [OF that] by blast
  have fetc: "?L" if "c \<in> set (fetch_calls pre_ctx post_ctx ps gs)" for ps gs
    using fetch_calls_member [OF that] by blast
  have pert: "?P" if "candidates_from prompt n perts pertc cands" "c \<in> set pertc" for pertc cands
    using candidates_from_member [OF that] by blast
  from run show ?thesis
  proof (cases rule: evaluate_generations_cases)
    case (returned r pertc cands m)
    from c returned(2) consider
      "c \<in> set (reference_calls pre_ctx post_ctx prompt refg (reference_generation r))"
      | "c \<in> set pertc"
      | "c \<in> set (fetch_calls pre_ctx post_ctx (perturbed_prompts r) (perturbed_generations r))"
      | "c = CheckCall (reference_generation r) (perturbed_generations r) (Inr m)"
      by auto
    then show ?thesis
    proof cases
      case 1 from refc [OF 1] show ?thesis by (rule disjI1)
    next
      case 2 from pert [OF returned(3) 2] show ?thesis by (rule disjI2 [OF disjI1])
    next
      case 3 from fetc [OF 3] show ?thesis by (rule disjI1)
    next
      case 4
      with returned(6) have ?C by simp
      then show ?thesis by (rule disjI2 [OF disjI2])
    qed
  next
    case (reference_failed e)
    with c have ?L by simp (intro exI, rule refl)
    then show ?thesis by (rule disjI1)
  next
    case (paraphrase_failed e ref d)
    from c paraphrase_failed(3) consider
      "c \<in> set (reference_calls pre_ctx post_ctx prompt refg ref)"
      | "c = PerturbTextCall [prompt] 1 n (Some 0) d"
      by auto
    then show ?thesis
    proof cases
      case 1 from refc [OF 1] show ?thesis by (rule disjI1)
    next
      case 2
      with paraphrase_failed(2) have ?P by simp
      then show ?thesis by (rule disjI2 [OF disjI1])
    qed
  next
    case (fetch_failed e ref pertc cands gens k)
    from c fetch_failed(5) consider
      "c \<in> set (reference_calls pre_ctx post_ctx prompt refg ref)"
      | "c \<in> set pertc"
      | "c \<in> set (fetch_calls pre_ctx post_ctx
              (take k (if et = correctness then prompt # cands else cands)) gens)"
      | "c = LLMCall (construct_llm_input
                ((if et = correctness then prompt # cands else cands) ! k)
                pre_ctx post_ctx '' '') (Inl e)"
      by auto
    then show ?thesis
    proof cases
      case 1 from refc [OF 1] show ?thesis by (rule disjI1)
    next
      case 2 from pert [OF fetch_failed(2) 2] show ?thesis by (rule disjI2 [OF disjI1])
    next
      case 3 from fetc [OF 3] show ?thesis by (rule disjI1)
    next
      case 4
      then have ?L by (intro exI)
      then show ?thesis by (rule disjI1)
    qed
  next
    case (check_failed e ref pertc cands gens)
    from c check_failed(5) consider
      "c \<in> set (reference_calls pre_ctx post_ctx prompt refg ref)"
      | "c \<in> set pertc"
      | "c \<in> set (fetch_calls pre_ctx post_ctx
              (if et = correctness then prompt # cands else cands) gens)"
      | "c = CheckCall ref gens (Inl e)"
      by auto
    then show ?thesis
    proof cases
      case 1 from refc [OF 1] show ?thesis by (rule disjI1)
    next
      case 2 from pert [OF check_failed(2) 2] show ?thesis by (rule disjI2 [OF disjI1])
    next
      case 3 from fetc [OF 3] show ?thesis by (rule disjI1)
    next
      case 4
      with check_failed(4) have ?C by simp
      then show ?thesis by (rule disjI2 [OF disjI2])
    qed
  qed
qed

lemma supplied_candidates_no_paraphrase:
  assumes "evaluate_generations self PT prompt et n pre_ctx post_ctx refg (Some ps) s = (out, s')"
    and "c \<in> set (new_calls s s')"
  shows "\<not> is_perturb_call c"
  using evaluate_generations_call_forms [OF assms] by (elim disjE exE conjE) simp_all

lemma supplied_candidates_verbatim:
  assumes "evaluate_generations self PT prompt et n pre_ctx post_ctx refg (Some ps) s = (Inr r, s')"
  shows "perturbed_prompts r = (if et = correctness then prompt # ps else ps)"
  using assms
  by (cases rule: evaluate_generations_cases) (simp_all add: candidates_from_def)

lemma supplied_candidates_ignore_count:
  "evaluate_generations self PT prompt et n pre_ctx post_ctx refg (Some ps)
     = evaluate_generations self PT prompt et n' pre_ctx post_ctx refg (Some ps)"
  by (simp add: evaluate_generations_def)

lemma check_calls_use_reference:
  assumes "evaluate_generations self PT prompt et n pre_ctx post_ctx (Some ref) perts s = (out, s')"
    and "CheckCall r gens res \<in> set (new_calls s s')"
  shows "r = ref"
  using evaluate_generations_call_forms [OF assms] by (elim disjE exE conjE) simp_all

lemma correctness_model_calls:
  assumes "evaluate_generations self PT prompt correctness n pre_ctx post_ctx (Some ref) perts s
             = (out, s')"
  shows "\<exists>cands. (\<forall>ps. perts = Some ps \<longrightarrow> cands = ps)
     \<and> prefix (map call_input (filter is_llm_call (new_calls s s')))
         (map (\<lambda>p. construct_llm_input p pre_ctx post_ctx '' '') (prompt # cands))
     \<and> (\<forall>r. out = Inr r \<longrightarrow> reference_generation r = ref
            \<and> perturbed_prompts r = prompt # cands
            \<and> filter is_llm_call (new_calls s s')
                = fetch_calls pre_ctx post_ctx (prompt # cands) (perturbed_generations r))"
  using assms
proof (cases rule: evaluate_generations_cases)
  case (returned r pertc cands m)
  have cands: "\<forall>ps. perts = Some ps \<longrightarrow> cands = ps"
    using returned(3) by (auto simp: candidates_from_def)
  have f: "filter is_llm_call (new_calls s s')
      = fetch_calls pre_ctx post_ctx (prompt # cands) (perturbed_generations r)"
    using returned(2,4) filter_llm_candidates [OF returned(3)]
    by (simp add: reference_calls_def)
  have "map call_input (filter is_llm_call (new_calls s s'))
      = map (\<lambda>p. construct_llm_input p pre_ctx post_ctx '' '') (prompt # cands)"
    using returned(4,5) by (simp add: f call_input_fetch_calls)
  then have "prefix (map call_input (filter is_llm_call (new_calls s s')))
         (map (\<lambda>p. construct_llm_input p pre_ctx post_ctx '' '') (prompt # cands))"
    by simp
  moreover have "\<forall>r'. out = Inr r' \<longrightarrow> reference_generation r' = ref
            \<and> perturbed_prompts r' = prompt # cands
            \<and> filter is_llm_call (new_calls s s')
                = fetch_calls pre_ctx post_ctx (prompt # cands) (perturbed_generations r')"
    using returned(1,4,6) f by simp
  ultimately show ?thesis using cands by blast
next
  case (reference_failed e)
  then show ?thesis by simp
next
  case (paraphrase_failed e r d)
  then have "filter is_llm_call (new_calls s s') = []" "perts = None" "out = Inl e"
    by (simp_all add: reference_calls_def)
  then show ?thesis by simp
next
  case (fetch_failed e r pertc cands gens k)
  have cands: "\<forall>ps. perts = Some ps \<longrightarrow> cands = ps"
    using fetch_failed(2) by (auto simp: candidates_from_def)
  define eps where "eps = prompt # cands"
  have k: "k < length eps"
    using fetch_failed(3) by (simp add: eps_def)
  have "map call_input (filter is_llm_call (new_calls s s'))
      = map (\<lambda>p. construct_llm_input p pre_ctx post_ctx '' '') (take k eps)
        @ [construct_llm_input (eps ! k) pre_ctx post_ctx '' '']"
    using fetch_failed(4,5) filter_llm_candidates [OF fetch_failed(2)]
    by (simp add: reference_calls_def call_input_fetch_calls eps_def)
  also have "\<dots> = map (\<lambda>p. construct_llm_input p pre_ctx post_ctx '' '') (take (Suc k) eps)"
    by (simp add: take_Suc_conv_app_nth [OF k])
  also have "\<dots> = take (Suc k) (map (\<lambda>p. construct_llm_input p pre_ctx post_ctx '' '') eps)"
    by (rule take_map [symmetric])
  finally have "prefix (map call_input (filter is_llm_call (new_calls s s')))
         (map (\<lambda>p. construct_llm_input p pre_ctx post_ctx '' '') eps)"
    by (simp only: take_is_prefix)
  with cands fetch_failed(1) show ?thesis by (auto simp: eps_def)
next
  case (check_failed e r pertc cands gens)
  have cands: "\<forall>ps. perts = Some ps \<longrightarrow> cands = ps"
    using check_failed(2) by (auto simp: candidates_from_def)
  have "map call_input (filter is_llm_call (new_calls s s'))
      = map (\<lambda>p. construct_llm_input p pre_ctx post_ctx '' '') (prompt # cands)"
    using check_failed(3,5) filter_llm_candidates [OF check_failed(2)]
    by (simp add: reference_calls_def call_input_fetch_calls)
  then have "prefix (map call_input (filter is_llm_call (new_calls s s')))
         (map (\<lambda>p. construct_llm_input p pre_ctx post_ctx '' '') (prompt # cands))"
    by simp
  with cands check_failed(1) show ?thesis by auto
qed

section \<open>The record is truthful\<close>

text \<open>
  Every step of the engine is truthful, and so is a whole run of
  \<^verbatim>\<open>_evaluate_generations\<close>: the calls it recorded are the calls it made to the
  collaborators, with those arguments, in that order, each at the world the previous one
  left, and their outcomes are what the collaborators answered.
\<close>

lemma replay_append:
  "replay self PT (xs @ ys) w
     = (case replay self PT xs w of None \<Rightarrow> None | Some w' \<Rightarrow> replay self PT ys w')"
proof (induction xs arbitrary: w)
  case Nil
  then show ?case by simp
next
  case (Cons c xs)
  then show ?case by (cases c) (simp_all split: prod.splits)
qed

lemma truthfulI:
  assumes "\<And>s out s'. m s = (out, s')
     \<Longrightarrow> \<exists>cs. calls s' = calls s @ cs \<and> replay self PT cs (world s) = Some (world s')"
  shows "truthful self PT m"
  using assms unfolding truthful_def by blast

lemma truthfulD:
  assumes "truthful self PT m" and "m s = (out, s')"
  shows "\<exists>cs. calls s' = calls s @ cs \<and> replay self PT cs (world s) = Some (world s')"
  using assms unfolding truthful_def by blast

lemma truthful_return: "truthful self PT (return a)"
  by (rule truthfulI) (simp add: return_def)

lemma truthful_andthen:
  assumes m: "truthful self PT m" and f: "\<And>a. truthful self PT (f a)"
  shows "truthful self PT (andthen m f)"
proof (rule truthfulI)
  fix s out s'
  assume run: "andthen m f s = (out, s')"
  obtain o1 s1 where m1: "m s = (o1, s1)" by (cases "m s")
  from truthfulD [OF m m1] obtain cs where
    cs: "calls s1 = calls s @ cs" "replay self PT cs (world s) = Some (world s1)"
    by blast
  show "\<exists>cs. calls s' = calls s @ cs \<and> replay self PT cs (world s) = Some (world s')"
  proof (cases o1)
    case (Inl e)
    with run m1 have "s' = s1" by (simp add: andthen_def)
    with cs show ?thesis by blast
  next
    case (Inr a)
    with run m1 have "f a s1 = (out, s')" by (simp add: andthen_def)
    from truthfulD [OF f this] obtain ds where
      ds: "calls s' = calls s1 @ ds" "replay self PT ds (world s1) = Some (world s')"
      by blast
    from cs ds have "calls s' = calls s @ (cs @ ds)
        \<and> replay self PT (cs @ ds) (world s) = Some (world s')"
      by (simp add: replay_append)
    then show ?thesis by blast
  qed
qed

lemma truthful_call_llm: "truthful self PT (call_llm self inp)"
proof (rule truthfulI)
  fix s out s'
  assume "call_llm self inp s = (out, s')"
  then have "calls s' = calls s @ [LLMCall inp out]
      \<and> replay self PT [LLMCall inp out] (world s) = Some (world s')"
    by (auto simp: call_llm_def split: prod.splits)
  then show "\<exists>cs. calls s' = calls s @ cs \<and> replay self PT cs (world s) = Some (world s')"
    by blast
qed

lemma truthful_call_perturb_text: "truthful self PT (call_perturb_text PT texts b n temp)"
proof (rule truthfulI)
  fix s out s'
  assume "call_perturb_text PT texts b n temp s = (out, s')"
  then have "calls s' = calls s @ [PerturbTextCall texts b n temp out]
      \<and> replay self PT [PerturbTextCall texts b n temp out] (world s) = Some (world s')"
    by (auto simp: call_perturb_text_def split: prod.splits)
  then show "\<exists>cs. calls s' = calls s @ cs \<and> replay self PT cs (world s) = Some (world s')"
    by blast
qed

lemma truthful_call_check: "truthful self PT (call_check self ref gens)"
proof (rule truthfulI)
  fix s out s'
  assume "call_check self ref gens s = (out, s')"
  then have "calls s' = calls s @ [CheckCall ref gens out]
      \<and> replay self PT [CheckCall ref gens out] (world s) = Some (world s')"
    by (auto simp: call_check_def split: prod.splits)
  then show "\<exists>cs. calls s' = calls s @ cs \<and> replay self PT cs (world s) = Some (world s')"
    by blast
qed

lemma truthful_get_generation: "truthful self PT (get_generation self p pre_ctx post_ctx)"
proof (rule truthfulI)
  fix s out s'
  assume run: "get_generation self p pre_ctx post_ctx s = (out, s')"
  obtain r s1 where
    c: "call_llm self (construct_llm_input p pre_ctx post_ctx '' '') s = (r, s1)"
    by (cases "call_llm self (construct_llm_input p pre_ctx post_ctx '' '') s")
  from truthfulD [OF truthful_call_llm c] obtain cs where
    cs: "calls s1 = calls s @ cs" "replay self PT cs (world s) = Some (world s1)"
    by blast
  from run c have "calls s' = calls s1 \<and> world s' = world s1"
    by (cases r) (auto simp: get_generation_def log_def)
  with cs show "\<exists>cs. calls s' = calls s @ cs \<and> replay self PT cs (world s) = Some (world s')"
    by auto
qed

lemma truthful_logged:
  assumes "truthful self PT m"
  shows "truthful self PT (\<lambda>s. m (log lvl msg s))"
proof (rule truthfulI)
  fix s out s'
  assume "m (log lvl msg s) = (out, s')"
  from truthfulD [OF assms this]
  show "\<exists>cs. calls s' = calls s @ cs \<and> replay self PT cs (world s) = Some (world s')"
    by (simp add: log_def)
qed

lemma truthful_generate_alternative_prompts:
  "truthful self PT (generate_alternative_prompts PT prompt n temp ro)"
  unfolding generate_alternative_prompts_def
proof (rule truthful_andthen [OF truthful_call_perturb_text])
  fix data
  show "truthful self PT (\<lambda>s. case data of
            [] \<Rightarrow> (Inl IndexError, s)
          | row # x \<Rightarrow> if ro then (Inr row, s) else (Inr (drop 1 row), s))"
    by (rule truthfulI) (auto split: list.splits if_splits)
qed

lemma truthful_fetch_generations:
  "truthful self PT (fetch_generations self pre_ctx post_ctx ps acc)"
proof (induction ps arbitrary: acc)
  case Nil
  show ?case by (rule truthfulI) simp
next
  case (Cons p ps)
  have "fetch_generations self pre_ctx post_ctx (p # ps) acc
      = andthen (get_generation self p pre_ctx post_ctx)
          (\<lambda>resp. fetch_generations self pre_ctx post_ctx ps (acc @ [resp]))"
    by (rule ext) (simp add: andthen_def)
  with truthful_andthen [OF truthful_get_generation Cons.IH] show ?case by simp
qed

lemma truthful_evaluate_generations:
  "truthful self PT
     (evaluate_generations self PT prompt et n pre_ctx post_ctx refg perts)"
  unfolding evaluate_generations_def Let_def
proof (intro truthful_andthen)
  show "truthful self PT (case refg of
          None \<Rightarrow> (\<lambda>s. get_generation self prompt pre_ctx post_ctx
                          (log DEBUG (''Fetching reference generation for the prompt: '' @ prompt) s))
        | Some r \<Rightarrow> return r)"
    by (cases refg) (simp_all add: truthful_return truthful_logged [OF truthful_get_generation])
next
  fix ref
  show "truthful self PT (case perts of
          None \<Rightarrow> generate_alternative_prompts PT prompt n (Some 0) False
        | Some ps \<Rightarrow> return ps)"
    by (cases perts) (simp_all add: truthful_return truthful_generate_alternative_prompts)
next
  fix ref cands
  show "truthful self PT (fetch_generations self pre_ctx post_ctx
          (if et = correctness then [prompt] @ cands else cands) [])"
    by (rule truthful_fetch_generations)
next
  fix ref cands gens
  show "truthful self PT (call_check self ref gens)"
    by (rule truthful_call_check)
next
  fix ref cands gens m
  show "truthful self PT (return
       \<lparr>original_prompt = prompt, pre_context = pre_ctx, post_context = post_ctx,
        reference_generation = ref,
        perturbed_prompts = (if et = correctness then [prompt] @ cands else cands),
        perturbed_generations = gens, generation_kwargs = get_generation_details self,
        result = map fst m, metric = map snd m,
        expected_behavior_desc = descriptor (expected_behavior self),
        evaluation_type = et\<rparr>)"
    by (rule truthful_return)
qed

lemma evaluate_generations_replay:
  assumes "evaluate_generations self PT prompt et n pre_ctx post_ctx refg perts s = (out, s')"
  shows "replay self PT (new_calls s s') (world s) = Some (world s')"
  using truthfulD [OF truthful_evaluate_generations assms]
  by (auto simp: new_calls_def)

text \<open>
  What replaying the calls of each stage says about the collaborators, and the account of a
  run that returned: the reference is the model's answer at the initial world, the
  generations are the model's answers to the assembled evaluated prompts asked in order
  after the reference and paraphrase stages, and the pairs are what the check answers on
  them.
\<close>

lemma replay_reference_calls:
  "replay self PT (reference_calls pre_ctx post_ctx prompt refg ref) w = Some w1
     \<longleftrightarrow> (case refg of
            None \<Rightarrow> generate (llm self) (construct_llm_input prompt pre_ctx post_ctx '' '') w
                     = (Inr ref, w1)
          | Some x \<Rightarrow> w1 = w)"
  by (cases refg) (auto simp: reference_calls_def fetch_call_def split: prod.splits)

lemma replay_candidates:
  assumes "candidates_from prompt n perts pertc cands"
    and "replay self PT pertc w1 = Some w2"
  shows "case perts of
           None \<Rightarrow> (\<exists>row rest. PT [prompt] 1 n (Some 0) w1 = (Inr (row # rest), w2)
                       \<and> cands = drop 1 row)
         | Some ps \<Rightarrow> cands = ps \<and> w2 = w1"
  using assms
  by (cases perts) (auto simp: candidates_from_def split: prod.splits if_splits)

lemma replay_fetch_calls:
  assumes "length gs = length ps"
    and "replay self PT (fetch_calls pre_ctx post_ctx ps gs) w = Some w'"
  shows "model_answers (llm self) (map (\<lambda>p. construct_llm_input p pre_ctx post_ctx '' '') ps) w
           = (Inr gs, w')"
  using assms
proof (induction ps arbitrary: gs w)
  case Nil
  then show ?case by simp
next
  case (Cons p ps)
  from Cons.prems(1) obtain g gs' where gs: "gs = g # gs'" "length gs' = length ps"
    by (cases gs) auto
  from Cons.prems(2) gs obtain w1 where
    g: "generate (llm self) (construct_llm_input p pre_ctx post_ctx '' '') w = (Inr g, w1)"
    and rest: "replay self PT (fetch_calls pre_ctx post_ctx ps gs') w1 = Some w'"
    by (auto simp: fetch_call_def split: prod.splits if_splits)
  from Cons.IH [OF gs(2) rest] g gs show ?case by simp
qed

lemma replay_check_call:
  "replay self PT [CheckCall ref gens out] w = Some w'
     \<longleftrightarrow> check (expected_behavior self) ref gens w = (out, w')"
  by (auto split: prod.splits)

lemma evaluate_generations_answers:
  assumes run: "evaluate_generations self PT prompt et n pre_ctx post_ctx refg perts s = (Inr r, s')"
  shows "\<exists>w1 w2 w3 cands m.
      (case refg of
         None \<Rightarrow> generate (llm self) (construct_llm_input prompt pre_ctx post_ctx '' '') (world s)
                  = (Inr (reference_generation r), w1)
       | Some x \<Rightarrow> w1 = world s)
    \<and> (case perts of
         None \<Rightarrow> (\<exists>row rest. PT [prompt] 1 n (Some 0) w1 = (Inr (row # rest), w2)
                     \<and> cands = drop 1 row)
       | Some ps \<Rightarrow> cands = ps \<and> w2 = w1)
    \<and> perturbed_prompts r = (if et = correctness then prompt # cands else cands)
    \<and> model_answers (llm self)
         (map (\<lambda>p. construct_llm_input p pre_ctx post_ctx '' '') (perturbed_prompts r)) w2
         = (Inr (perturbed_generations r), w3)
    \<and> check (expected_behavior self) (reference_generation r) (perturbed_generations r) w3
         = (Inr m, world s')
    \<and> result r = map fst m \<and> metric r = map snd m"
proof -
  from evaluate_generations_success [OF run] obtain pertc cands m where
    c: "calls s' = calls s @ reference_calls pre_ctx post_ctx prompt refg (reference_generation r)
        @ pertc
        @ fetch_calls pre_ctx post_ctx (perturbed_prompts r) (perturbed_generations r)
        @ [CheckCall (reference_generation r) (perturbed_generations r) (Inr m)]"
    and cf: "candidates_from prompt n perts pertc cands"
    and eps: "perturbed_prompts r = (if et = correctness then prompt # cands else cands)"
    and len: "length (perturbed_generations r) = length (perturbed_prompts r)"
    and res: "result r = map fst m" "metric r = map snd m"
    by blast
  from evaluate_generations_replay [OF run] new_calls_append [OF c]
  have "replay self PT
      (reference_calls pre_ctx post_ctx prompt refg (reference_generation r)
        @ pertc
        @ fetch_calls pre_ctx post_ctx (perturbed_prompts r) (perturbed_generations r)
        @ [CheckCall (reference_generation r) (perturbed_generations r) (Inr m)]) (world s)
      = Some (world s')"
    by simp
  then obtain w1 w2 w3 where
    r1: "replay self PT (reference_calls pre_ctx post_ctx prompt refg (reference_generation r))
           (world s) = Some w1"
    and r2: "replay self PT pertc w1 = Some w2"
    and r3: "replay self PT
           (fetch_calls pre_ctx post_ctx (perturbed_prompts r) (perturbed_generations r)) w2
           = Some w3"
    and r4: "replay self PT [CheckCall (reference_generation r) (perturbed_generations r) (Inr m)]
           w3 = Some (world s')"
    by (auto simp: replay_append split: option.splits)
  note a = r1 [unfolded replay_reference_calls]
  note b = replay_candidates [OF cf r2]
  note d = replay_fetch_calls [OF len r3]
  note e = r4 [unfolded replay_check_call]
  from a b eps d e res show ?thesis by blast
qed

lemma paraphrase_stage:
  assumes run: "evaluate_generations self PT prompt et n pre_ctx post_ctx refg None s = (out, s')"
  shows "(\<exists>w1 d w2.
            (case refg of
               None \<Rightarrow> (\<exists>ref. generate (llm self)
                            (construct_llm_input prompt pre_ctx post_ctx '' '') (world s)
                          = (Inr ref, w1))
             | Some x \<Rightarrow> w1 = world s)
          \<and> PT [prompt] 1 n (Some 0) w1 = (d, w2)
          \<and> filter is_perturb_call (new_calls s s') = [PerturbTextCall [prompt] 1 n (Some 0) d])
       \<or> (refg = None \<and> (\<exists>e. generate (llm self)
                (construct_llm_input prompt pre_ctx post_ctx '' '') (world s) = (Inl e, world s')
              \<and> out = Inl e
              \<and> new_calls s s'
                  = [LLMCall (construct_llm_input prompt pre_ctx post_ctx '' '') (Inl e)]))"
  (is "?invoked \<or> ?aborted")
proof -
  note rp = evaluate_generations_replay [OF run]
  have invoked: ?invoked
    if n: "new_calls s s' = reference_calls pre_ctx post_ctx prompt refg ref
              @ PerturbTextCall [prompt] 1 n (Some 0) d # rest"
      and rest: "filter is_perturb_call rest = []"
    for ref d rest
  proof -
    from rp n obtain w1 where
      r1: "replay self PT (reference_calls pre_ctx post_ctx prompt refg ref) (world s) = Some w1"
      and r2: "replay self PT (PerturbTextCall [prompt] 1 n (Some 0) d # rest) w1
                 = Some (world s')"
      by (auto simp: replay_append split: option.splits)
    from r2 obtain w2 where pt: "PT [prompt] 1 n (Some 0) w1 = (d, w2)"
      by (auto split: prod.splits if_splits)
    from r1 have "case refg of
               None \<Rightarrow> (\<exists>ref. generate (llm self)
                            (construct_llm_input prompt pre_ctx post_ctx '' '') (world s)
                          = (Inr ref, w1))
             | Some x \<Rightarrow> w1 = world s"
      unfolding replay_reference_calls by (cases refg) auto
    moreover from n rest have
      "filter is_perturb_call (new_calls s s') = [PerturbTextCall [prompt] 1 n (Some 0) d]"
      by simp
    ultimately show ?thesis using pt by blast
  qed
  from run show ?thesis
  proof (cases rule: evaluate_generations_cases)
    case (returned r pertc cands m)
    from returned(3) obtain row rest where
      "pertc = [PerturbTextCall [prompt] 1 n (Some 0) (Inr (row # rest))]"
      by (auto simp: candidates_from_def)
    with returned(2) have ?invoked
      by (intro invoked [where rest = "fetch_calls pre_ctx post_ctx (perturbed_prompts r)
          (perturbed_generations r)
          @ [CheckCall (reference_generation r) (perturbed_generations r) (Inr m)]"]) simp_all
    then show ?thesis ..
  next
    case (reference_failed e)
    from rp reference_failed(3) have
      "generate (llm self) (construct_llm_input prompt pre_ctx post_ctx '' '') (world s)
         = (Inl e, world s')"
      by (auto split: prod.splits if_splits)
    with reference_failed have ?aborted by simp
    then show ?thesis ..
  next
    case (paraphrase_failed e ref d)
    then have ?invoked
      by (intro invoked [where rest = "[]"]) simp_all
    then show ?thesis ..
  next
    case (fetch_failed e ref pertc cands gens k)
    from fetch_failed(2) obtain row rest where
      "pertc = [PerturbTextCall [prompt] 1 n (Some 0) (Inr (row # rest))]"
      by (auto simp: candidates_from_def)
    with fetch_failed(5) have ?invoked
      by (intro invoked [where rest = "fetch_calls pre_ctx post_ctx
              (take k (if et = correctness then prompt # cands else cands)) gens
          @ [LLMCall (construct_llm_input
                ((if et = correctness then prompt # cands else cands) ! k)
                pre_ctx post_ctx '' '') (Inl e)]"]) simp_all
    then show ?thesis ..
  next
    case (check_failed e ref pertc cands gens)
    from check_failed(2) obtain row rest where
      "pertc = [PerturbTextCall [prompt] 1 n (Some 0) (Inr (row # rest))]"
      by (auto simp: candidates_from_def)
    with check_failed(5) have ?invoked
      by (intro invoked [where rest = "fetch_calls pre_ctx post_ctx
              (if et = correctness then prompt # cands else cands) gens
          @ [CheckCall ref gens (Inl e)]"]) simp_all
    then show ?thesis ..
  qed
qed

lemmas echo_defs =
  echo_llm_def echo_behavior_def echo_eval_def counting_perturb_def start_state_def

section \<open>The generation details\<close>

text \<open>
  Each of the three keys is present exactly when the model object has the attribute, and
  holds the attribute's value as it is; there is no other key.
\<close>

lemma get_generation_details_lookup:
  "map_of (get_generation_details self) ''Provider'' = attr_llm_type (llm self)
   \<and> map_of (get_generation_details self) ''Temperature'' = attr_temperature (llm self)
   \<and> map_of (get_generation_details self) ''Model Name'' = attr_model_name (llm self)
   \<and> fst ` set (get_generation_details self) \<subseteq> {''Provider'', ''Temperature'', ''Model Name''}
   \<and> distinct (map fst (get_generation_details self))"
  by (auto simp: get_generation_details_def split: option.splits)

section \<open>The claims\<close>

text \<open>
  C1. In a run of \<^verbatim>\<open>_evaluate_generations\<close> that returns a result, let the candidate
  list be the list the caller supplied or, when none was supplied, the first row of the
  one paraphrase call less its first entry. In correctness mode the evaluated prompts are
  the original prompt followed by the candidates; in robustness mode they are the
  candidates and nothing else.
\<close>

theorem evaluated_prompts_by_mode:
  assumes "evaluate_generations self PT prompt et n pre_ctx post_ctx refg perts s = (Inr r, s')"
  shows "\<exists>cands.
      (case perts of
         Some ps \<Rightarrow> cands = ps \<and> filter is_perturb_call (new_calls s s') = []
       | None \<Rightarrow> (\<exists>row rest. filter is_perturb_call (new_calls s s')
                       = [PerturbTextCall [prompt] 1 n (Some 0) (Inr (row # rest))]
                     \<and> cands = drop 1 row))
    \<and> (et = correctness \<longrightarrow> perturbed_prompts r = prompt # cands)
    \<and> (et = robustness \<longrightarrow> perturbed_prompts r = cands)"
proof -
  from evaluate_generations_success [OF assms] obtain pertc cands m where
    c: "calls s' = calls s @ reference_calls pre_ctx post_ctx prompt refg (reference_generation r)
        @ pertc
        @ fetch_calls pre_ctx post_ctx (perturbed_prompts r) (perturbed_generations r)
        @ [CheckCall (reference_generation r) (perturbed_generations r) (Inr m)]"
    and cf: "candidates_from prompt n perts pertc cands"
    and eps: "perturbed_prompts r = (if et = correctness then prompt # cands else cands)"
    by blast
  have "filter is_perturb_call (new_calls s s') = pertc"
    using new_calls_append [OF c] filter_perturb_candidates [OF cf] by simp
  with cf have "case perts of
         Some ps \<Rightarrow> cands = ps \<and> filter is_perturb_call (new_calls s s') = []
       | None \<Rightarrow> (\<exists>row rest. filter is_perturb_call (new_calls s s')
                       = [PerturbTextCall [prompt] 1 n (Some 0) (Inr (row # rest))]
                     \<and> cands = drop 1 row)"
    by (auto simp: candidates_from_def split: option.splits)
  moreover have "et = correctness \<longrightarrow> perturbed_prompts r = prompt # cands"
    using eps by simp
  moreover have "et = robustness \<longrightarrow> perturbed_prompts r = cands"
    using eps by auto
  ultimately show ?thesis by blast
qed

theorem evaluated_prompts_by_mode_witness:
  "\<exists>r s'. evaluate_generations (stub_eval []) stub_perturb ''What is 2+2?'' correctness 2
             None None (Some ''4'') None init_state = (Inr r, s')
     \<and> perturbed_prompts r = [''What is 2+2?'', ''How much is 2 plus 2?'', ''Sum of 2 and 2?'']"
proof -
  have "\<exists>r s'. evaluate_generations (stub_eval []) stub_perturb ''What is 2+2?'' correctness 2
             None None (Some ''4'') None init_state = (Inr r, s')"
    by (simp add: run_defs)
  then obtain r s' where
    h: "evaluate_generations (stub_eval []) stub_perturb ''What is 2+2?'' correctness 2
             None None (Some ''4'') None init_state = (Inr r, s')"
    by blast
  from evaluated_prompts_by_mode [OF h] obtain cands row rest where
    "filter is_perturb_call (new_calls init_state s')
       = [PerturbTextCall [''What is 2+2?''] 1 2 (Some 0) (Inr (row # rest))]"
    "cands = drop 1 row" "perturbed_prompts r = ''What is 2+2?'' # cands"
    by auto
  moreover have "filter is_perturb_call (new_calls init_state s')
       = [PerturbTextCall [''What is 2+2?''] 1 2 (Some 0)
           (Inr [[''What is 2+2?'', ''How much is 2 plus 2?'', ''Sum of 2 and 2?'']])]"
    using h by (auto simp: run_defs)
  ultimately show ?thesis using h by auto
qed

text \<open>
  C2. Suppose the behaviour check returns one pair per generation whenever it returns. Then
  in a result the evaluated prompts, the generations, the pass flags and the scores have the
  same length, and the model calls of the run are the reference fetch (when the caller gave
  no reference) followed, prompt by prompt and in order, by the call on the assembled
  prompt whose answer is the generation at the same index. These answers are the model's:
  asking the model the assembled evaluated prompts one after the other, from the world left
  by the reference fetch and the paraphrase call (where the run makes them), gives exactly
  the generations of the result, in that order.
\<close>

theorem parallel_result_lists:
  assumes contract:
      "\<forall>ref gens w m w'. check (expected_behavior self) ref gens w = (Inr m, w')
          \<longrightarrow> length m = length gens"
    and run: "evaluate_generations self PT prompt et n pre_ctx post_ctx refg perts s = (Inr r, s')"
  shows "length (perturbed_prompts r) = length (perturbed_generations r)
       \<and> length (perturbed_generations r) = length (result r)
       \<and> length (result r) = length (metric r)
       \<and> filter is_llm_call (new_calls s s')
           = reference_calls pre_ctx post_ctx prompt refg (reference_generation r)
             @ fetch_calls pre_ctx post_ctx (perturbed_prompts r) (perturbed_generations r)
       \<and> (\<exists>w1 w2 w3.
             (case refg of
                None \<Rightarrow> generate (llm self)
                           (construct_llm_input prompt pre_ctx post_ctx '' '') (world s)
                         = (Inr (reference_generation r), w1)
              | Some x \<Rightarrow> w1 = world s)
           \<and> (case perts of
                None \<Rightarrow> (\<exists>d. PT [prompt] 1 n (Some 0) w1 = (d, w2))
              | Some ps \<Rightarrow> w2 = w1)
           \<and> model_answers (llm self)
                (map (\<lambda>p. construct_llm_input p pre_ctx post_ctx '' '') (perturbed_prompts r)) w2
                = (Inr (perturbed_generations r), w3))"
proof -
  from evaluate_generations_success [OF run] obtain pertc cands m w w' where
    c: "calls s' = calls s @ reference_calls pre_ctx post_ctx prompt refg (reference_generation r)
        @ pertc
        @ fetch_calls pre_ctx post_ctx (perturbed_prompts r) (perturbed_generations r)
        @ [CheckCall (reference_generation r) (perturbed_generations r) (Inr m)]"
    and cf: "candidates_from prompt n perts pertc cands"
    and len: "length (perturbed_generations r) = length (perturbed_prompts r)"
    and res: "result r = map fst m" "metric r = map snd m"
    and chk: "check (expected_behavior self) (reference_generation r)
                  (perturbed_generations r) w = (Inr m, w')"
    by blast
  from contract chk have "length m = length (perturbed_generations r)" by blast
  with len res have "length (perturbed_prompts r) = length (perturbed_generations r)
       \<and> length (perturbed_generations r) = length (result r)
       \<and> length (result r) = length (metric r)"
    by simp
  moreover have "filter is_llm_call (new_calls s s')
           = reference_calls pre_ctx post_ctx prompt refg (reference_generation r)
             @ fetch_calls pre_ctx post_ctx (perturbed_prompts r) (perturbed_generations r)"
    using new_calls_append [OF c] filter_llm_candidates [OF cf] by simp
  moreover have "\<exists>w1 w2 w3.
             (case refg of
                None \<Rightarrow> generate (llm self)
                           (construct_llm_input prompt pre_ctx post_ctx '' '') (world s)
                         = (Inr (reference_generation r), w1)
              | Some x \<Rightarrow> w1 = world s)
           \<and> (case perts of
                None \<Rightarrow> (\<exists>d. PT [prompt] 1 n (Some 0) w1 = (d, w2))
              | Some ps \<Rightarrow> w2 = w1)
           \<and> model_answers (llm self)
                (map (\<lambda>p. construct_llm_input p pre_ctx post_ctx '' '') (perturbed_prompts r)) w2
                = (Inr (perturbed_generations r), w3)"
  proof -
    from evaluate_generations_answers [OF run] obtain w1 w2 w3 cs where
      a: "case refg of
                None \<Rightarrow> generate (llm self)
                           (construct_llm_input prompt pre_ctx post_ctx '' '') (world s)
                         = (Inr (reference_generation r), w1)
              | Some x \<Rightarrow> w1 = world s"
      and b: "case perts of
         None \<Rightarrow> (\<exists>row rest. PT [prompt] 1 n (Some 0) w1 = (Inr (row # rest), w2)
                     \<and> cs = drop 1 row)
       | Some ps \<Rightarrow> cs = ps \<and> w2 = w1"
      and d: "model_answers (llm self)
                (map (\<lambda>p. construct_llm_input p pre_ctx post_ctx '' '') (perturbed_prompts r)) w2
                = (Inr (perturbed_generations r), w3)"
      by blast
    from b have "case perts of
                None \<Rightarrow> (\<exists>d. PT [prompt] 1 n (Some 0) w1 = (d, w2))
              | Some ps \<Rightarrow> w2 = w1"
      by (cases perts) auto
    with a d show ?thesis by blast
  qed
  ultimately show ?thesis by blast
qed

theorem parallel_result_lists_witness:
  "(\<forall>ref gens w. \<exists>m w'. check (expected_behavior (echo_eval [])) ref gens w = (Inr m, w')
          \<and> length m = length gens)
   \<and> (\<exists>r s'. evaluate_generations (echo_eval []) counting_perturb ''What is 2+2?'' robustness 2
             None None None None start_state = (Inr r, s')
        \<and> perturbed_prompts r = [''How much is 2 plus 2?'', ''Sum of 2 and 2?'']
        \<and> perturbed_generations r = [''#How much is 2 plus 2?'', ''##Sum of 2 and 2?'']
        \<and> model_answers (llm (echo_eval [])) [''How much is 2 plus 2?'', ''Sum of 2 and 2?''] (1, 1)
            = (Inr [''#How much is 2 plus 2?'', ''##Sum of 2 and 2?''], (3, 1))
        \<and> length (result r) = 2 \<and> length (metric r) = 2)"
proof -
  have contract: "\<forall>ref gens w m w'. check (expected_behavior (echo_eval [])) ref gens w = (Inr m, w')
          \<longrightarrow> length m = length gens"
    by (auto simp: echo_defs)
  have "\<exists>r s'. evaluate_generations (echo_eval []) counting_perturb ''What is 2+2?'' robustness 2
             None None None None start_state = (Inr r, s')"
    by (simp add: run_defs echo_defs)
  then obtain r s' where
    h: "evaluate_generations (echo_eval []) counting_perturb ''What is 2+2?'' robustness 2
             None None None None start_state = (Inr r, s')"
    by blast
  have p: "perturbed_prompts r = [''How much is 2 plus 2?'', ''Sum of 2 and 2?'']"
    using h by (auto simp: run_defs echo_defs)
  from parallel_result_lists [OF contract h] obtain w1 w2 w3 d where
    len: "length (perturbed_prompts r) = length (perturbed_generations r)"
      "length (perturbed_generations r) = length (result r)"
      "length (result r) = length (metric r)"
    and g: "generate (llm (echo_eval []))
              (construct_llm_input ''What is 2+2?'' None None '' '') (world start_state)
            = (Inr (reference_generation r), w1)"
    and q: "counting_perturb [''What is 2+2?''] 1 2 (Some 0) w1 = (d, w2)"
    and a: "model_answers (llm (echo_eval []))
                (map (\<lambda>p. construct_llm_input p None None '' '') (perturbed_prompts r)) w2
                = (Inr (perturbed_generations r), w3)"
    by auto
  from g have w1: "w1 = (1, 0)"
    by (auto simp: echo_defs construct_llm_input_def)
  with q have w2: "w2 = (1, 1)"
    by (auto simp: echo_defs)
  have m: "model_answers (llm (echo_eval [])) [''How much is 2 plus 2?'', ''Sum of 2 and 2?''] (1, 1)
            = (Inr [''#How much is 2 plus 2?'', ''##Sum of 2 and 2?''], (3, 1))"
    by (simp add: echo_defs)
  with a p w2 have gens: "perturbed_generations r = [''#How much is 2 plus 2?'', ''##Sum of 2 and 2?'']"
    by (simp add: construct_llm_input_def)
  with len p have "length (result r) = 2 \<and> length (metric r) = 2"
    by simp
  moreover have "\<forall>ref gens w. \<exists>m w'.
      check (expected_behavior (echo_eval [])) ref gens w = (Inr m, w') \<and> length m = length gens"
    by (simp add: echo_defs)
  ultimately show ?thesis using h p gens m by blast
qed

text \<open>
  C3. If a model call of a run raised \<open>e\<close>, be it the reference fetch or the fetch for
  any evaluated prompt, then the run raises the same \<open>e\<close> and returns no result, the
  failing call is the last call of the run (before it there are only paraphrase calls and
  model calls that answered, so no later prompt was fetched), and the behaviour check was
  not called.
\<close>

theorem generation_failure_is_fatal:
  assumes run: "evaluate_generations self PT prompt et n pre_ctx post_ctx refg perts s = (out, s')"
    and failed: "LLMCall inp (Inl e) \<in> set (new_calls s s')"
  shows "out = Inl e
       \<and> (\<exists>before. new_calls s s' = before @ [LLMCall inp (Inl e)]
             \<and> (\<forall>c \<in> set before. is_perturb_call c \<or> (\<exists>i g. c = LLMCall i (Inr g))))
       \<and> (\<forall>c \<in> set (new_calls s s'). \<not> is_check_call c)"
  using run
proof (cases rule: evaluate_generations_cases)
  case (returned r pertc cands m)
  with failed have False
    by (auto dest: reference_calls_member fetch_calls_member candidates_from_member)
  then show ?thesis ..
next
  case (reference_failed e')
  with failed show ?thesis by simp
next
  case (paraphrase_failed e' ref d)
  with failed have False
    by (auto dest: reference_calls_member)
  then show ?thesis ..
next
  case (fetch_failed e' ref pertc cands gens k)
  let ?before = "reference_calls pre_ctx post_ctx prompt refg ref @ pertc
      @ fetch_calls pre_ctx post_ctx
          (take k (if et = correctness then prompt # cands else cands)) gens"
  have before: "is_perturb_call c \<or> (\<exists>i g. c = LLMCall i (Inr g))" if "c \<in> set ?before" for c
    using that
    by (auto dest: reference_calls_member fetch_calls_member
        candidates_from_member [OF fetch_failed(2)])
  have nocheck: "\<not> is_check_call c" if "c \<in> set ?before" for c
    using before [OF that] by (cases c) auto
  have "LLMCall inp (Inl e) \<notin> set ?before"
  proof
    assume "LLMCall inp (Inl e) \<in> set ?before"
    from before [OF this] show False by simp
  qed
  with failed fetch_failed(5) have
    eq: "LLMCall inp (Inl e) = LLMCall (construct_llm_input
            ((if et = correctness then prompt # cands else cands) ! k)
            pre_ctx post_ctx '' '') (Inl e')"
    by simp
  with fetch_failed(1) have "out = Inl e" by simp
  moreover from eq fetch_failed(5) have "new_calls s s' = ?before @ [LLMCall inp (Inl e)]"
    by simp
  moreover from fetch_failed(5) nocheck have "\<forall>c \<in> set (new_calls s s'). \<not> is_check_call c"
    by auto
  ultimately show ?thesis using before by blast
next
  case (check_failed e' ref pertc cands gens)
  with failed have False
    by (auto dest: reference_calls_member fetch_calls_member candidates_from_member)
  then show ?thesis ..
qed

theorem generation_failure_is_fatal_witness:
  "\<exists>out s'. evaluate_generations (stub_eval [''Sum of 2 and 2?'']) stub_perturb ''What is 2+2?''
               robustness 2 None None None None init_state = (out, s')
     \<and> LLMCall ''Sum of 2 and 2?'' (Inl (Exception ''timeout'')) \<in> set (new_calls init_state s')
     \<and> out = Inl (Exception ''timeout'')
     \<and> filter is_check_call (new_calls init_state s') = []
     \<and> new_calls init_state s'
         = [LLMCall ''What is 2+2?'' (Inr ''4''),
            PerturbTextCall [''What is 2+2?''] 1 2 (Some 0)
              (Inr [[''What is 2+2?'', ''How much is 2 plus 2?'', ''Sum of 2 and 2?'']]),
            LLMCall ''How much is 2 plus 2?'' (Inr ''4''),
            LLMCall ''Sum of 2 and 2?'' (Inl (Exception ''timeout''))]"
proof -
  obtain out s' where
    h: "evaluate_generations (stub_eval [''Sum of 2 and 2?'']) stub_perturb ''What is 2+2?''
               robustness 2 None None None None init_state = (out, s')"
    by (cases "evaluate_generations (stub_eval [''Sum of 2 and 2?'']) stub_perturb ''What is 2+2?''
               robustness 2 None None None None init_state")
  have n: "new_calls init_state s'
         = [LLMCall ''What is 2+2?'' (Inr ''4''),
            PerturbTextCall [''What is 2+2?''] 1 2 (Some 0)
              (Inr [[''What is 2+2?'', ''How much is 2 plus 2?'', ''Sum of 2 and 2?'']]),
            LLMCall ''How much is 2 plus 2?'' (Inr ''4''),
            LLMCall ''Sum of 2 and 2?'' (Inl (Exception ''timeout''))]"
    using h by (auto simp: run_defs)
  then have m: "LLMCall ''Sum of 2 and 2?'' (Inl (Exception ''timeout''))
      \<in> set (new_calls init_state s')"
    by simp
  from generation_failure_is_fatal [OF h m] have
    "out = Inl (Exception ''timeout'')"
    "\<forall>c \<in> set (new_calls init_state s'). \<not> is_check_call c"
    by blast+
  then have "out = Inl (Exception ''timeout'') \<and> filter is_check_call (new_calls init_state s') = []"
    by (simp add: filter_empty_conv)
  with h n m show ?thesis by blast
qed

text \<open>
  C4. In a run of \<^verbatim>\<open>evaluate_prompt_robustness\<close> that returns a result, the reference
  generation of the result is what the model answers, at the world the run started in, to
  the original prompt assembled with the two contexts. That model call is the first call
  of the run, and the model calls after it are the ones for the evaluated prompts, one
  each. The function has no parameter for a reference.
\<close>

theorem robustness_reference_is_fetched:
  assumes "evaluate_prompt_robustness self PT prompt n pre_ctx post_ctx perts s = (Inr r, s')"
  shows "(\<exists>w1. generate (llm self) (construct_llm_input prompt pre_ctx post_ctx '' '') (world s)
                 = (Inr (reference_generation r), w1))
       \<and> (\<exists>rest. new_calls s s'
            = LLMCall (construct_llm_input prompt pre_ctx post_ctx '' '')
                (Inr (reference_generation r)) # rest
         \<and> filter is_llm_call rest
            = fetch_calls pre_ctx post_ctx (perturbed_prompts r) (perturbed_generations r))"
proof -
  from assms have run:
    "evaluate_generations self PT prompt robustness n pre_ctx post_ctx None perts s = (Inr r, s')"
    by (simp add: evaluate_prompt_robustness_def)
  from evaluate_generations_success [OF run] obtain pertc cands m where
    c: "calls s' = calls s @ reference_calls pre_ctx post_ctx prompt None (reference_generation r)
        @ pertc
        @ fetch_calls pre_ctx post_ctx (perturbed_prompts r) (perturbed_generations r)
        @ [CheckCall (reference_generation r) (perturbed_generations r) (Inr m)]"
    and cf: "candidates_from prompt n perts pertc cands"
    by blast
  let ?rest = "pertc @ fetch_calls pre_ctx post_ctx (perturbed_prompts r) (perturbed_generations r)
        @ [CheckCall (reference_generation r) (perturbed_generations r) (Inr m)]"
  have "new_calls s s' = LLMCall (construct_llm_input prompt pre_ctx post_ctx '' '')
                (Inr (reference_generation r)) # ?rest"
    using new_calls_append [OF c] by (simp add: reference_calls_def fetch_call_def)
  moreover have "filter is_llm_call ?rest
      = fetch_calls pre_ctx post_ctx (perturbed_prompts r) (perturbed_generations r)"
    using filter_llm_candidates [OF cf] by simp
  moreover from evaluate_generations_answers [OF run] have
    "\<exists>w1. generate (llm self) (construct_llm_input prompt pre_ctx post_ctx '' '') (world s)
                 = (Inr (reference_generation r), w1)"
    by auto
  ultimately show ?thesis by blast
qed

theorem robustness_reference_is_fetched_witness:
  "\<exists>r s'. evaluate_prompt_robustness (echo_eval []) counting_perturb ''What is 2+2?'' 2
             (Some ''Context:'') (Some ''End.'') (Some [''Sum of 2 and 2?'']) start_state
             = (Inr r, s')
     \<and> generate (llm (echo_eval [])) ''Context: What is 2+2? End.'' (world start_state)
         = (Inr ''Context: What is 2+2? End.'', (1, 0))
     \<and> reference_generation r = ''Context: What is 2+2? End.''
     \<and> hd (new_calls start_state s')
         = LLMCall ''Context: What is 2+2? End.'' (Inr ''Context: What is 2+2? End.'')"
proof -
  have "\<exists>r s'. evaluate_prompt_robustness (echo_eval []) counting_perturb ''What is 2+2?'' 2
             (Some ''Context:'') (Some ''End.'') (Some [''Sum of 2 and 2?'']) start_state
             = (Inr r, s')"
    by (simp add: run_defs echo_defs)
  then obtain r s' where
    h: "evaluate_prompt_robustness (echo_eval []) counting_perturb ''What is 2+2?'' 2
             (Some ''Context:'') (Some ''End.'') (Some [''Sum of 2 and 2?'']) start_state
             = (Inr r, s')"
    by blast
  have g: "generate (llm (echo_eval [])) ''Context: What is 2+2? End.'' (world start_state)
         = (Inr ''Context: What is 2+2? End.'', (1, 0))"
    by (simp add: echo_defs)
  from robustness_reference_is_fetched [OF h] obtain w1 rest where
    a: "generate (llm (echo_eval []))
          (construct_llm_input ''What is 2+2?'' (Some ''Context:'') (Some ''End.'') '' '')
          (world start_state) = (Inr (reference_generation r), w1)"
    and b: "new_calls start_state s'
       = LLMCall (construct_llm_input ''What is 2+2?'' (Some ''Context:'') (Some ''End.'') '' '')
           (Inr (reference_generation r)) # rest"
    by blast
  from a g have ref: "reference_generation r = ''Context: What is 2+2? End.''"
    by (simp add: construct_llm_input_def)
  with b have "hd (new_calls start_state s')
         = LLMCall ''Context: What is 2+2? End.'' (Inr ''Context: What is 2+2? End.'')"
    by (simp add: construct_llm_input_def)
  with h g ref show ?thesis by blast
qed

text \<open>
  C5. When the caller supplies the candidate prompts, no run calls the paraphraser, a
  result holds the supplied prompts as they are and in their order (after the original
  prompt in correctness mode), and the run is the same for every value of
  \<^verbatim>\<open>perturbations_per_sample\<close>. In every run of \<^verbatim>\<open>evaluate_prompt_correctness\<close>
  the model is called on the assembled evaluated prompts only, in order and at most once
  each, so no call fetches a reference; a result holds the caller's reference, and the
  behaviour check is called with it.
\<close>

theorem caller_overrides_respected:
  "(\<forall>out s'. evaluate_generations self PT prompt et n pre_ctx post_ctx refg (Some ps) s = (out, s')
      \<longrightarrow> (\<forall>c \<in> set (new_calls s s'). \<not> is_perturb_call c)
        \<and> (\<forall>r. out = Inr r
              \<longrightarrow> perturbed_prompts r = (if et = correctness then prompt # ps else ps)))
   \<and> evaluate_generations self PT prompt et n pre_ctx post_ctx refg (Some ps)
       = evaluate_generations self PT prompt et n' pre_ctx post_ctx refg (Some ps)
   \<and> (\<forall>out s'. evaluate_prompt_correctness self PT prompt ref n pre_ctx post_ctx alt s = (out, s')
      \<longrightarrow> (\<exists>cands. (\<forall>ps. alt = Some ps \<longrightarrow> cands = ps)
            \<and> prefix (map call_input (filter is_llm_call (new_calls s s')))
                (map (\<lambda>p. construct_llm_input p pre_ctx post_ctx '' '') (prompt # cands))
            \<and> (\<forall>r. out = Inr r \<longrightarrow> reference_generation r = ref
                  \<and> perturbed_prompts r = prompt # cands
                  \<and> filter is_llm_call (new_calls s s')
                      = fetch_calls pre_ctx post_ctx (prompt # cands) (perturbed_generations r)))
        \<and> (\<forall>r gens res. CheckCall r gens res \<in> set (new_calls s s') \<longrightarrow> r = ref))"
proof (intro conjI allI impI ballI)
  fix out s' c
  assume "evaluate_generations self PT prompt et n pre_ctx post_ctx refg (Some ps) s = (out, s')"
    and "c \<in> set (new_calls s s')"
  then show "\<not> is_perturb_call c" by (rule supplied_candidates_no_paraphrase)
next
  fix out s' r
  assume "evaluate_generations self PT prompt et n pre_ctx post_ctx refg (Some ps) s = (out, s')"
    and "out = Inr r"
  then show "perturbed_prompts r = (if et = correctness then prompt # ps else ps)"
    by (simp add: supplied_candidates_verbatim)
next
  show "evaluate_generations self PT prompt et n pre_ctx post_ctx refg (Some ps)
       = evaluate_generations self PT prompt et n' pre_ctx post_ctx refg (Some ps)"
    by (rule supplied_candidates_ignore_count)
next
  fix out s'
  assume "evaluate_prompt_correctness self PT prompt ref n pre_ctx post_ctx alt s = (out, s')"
  then have "evaluate_generations self PT prompt correctness n pre_ctx post_ctx (Some ref) alt s
      = (out, s')"
    by (simp add: evaluate_prompt_correctness_def)
  then show "\<exists>cands. (\<forall>ps. alt = Some ps \<longrightarrow> cands = ps)
            \<and> prefix (map call_input (filter is_llm_call (new_calls s s')))
                (map (\<lambda>p. construct_llm_input p pre_ctx post_ctx '' '') (prompt # cands))
            \<and> (\<forall>r. out = Inr r \<longrightarrow> reference_generation r = ref
                  \<and> perturbed_prompts r = prompt # cands
                  \<and> filter is_llm_call (new_calls s s')
                      = fetch_calls pre_ctx post_ctx (prompt # cands) (perturbed_generations r))"
    by (rule correctness_model_calls)
next
  fix out s' r gens res
  assume "evaluate_prompt_correctness self PT prompt ref n pre_ctx post_ctx alt s = (out, s')"
    and c: "CheckCall r gens res \<in> set (new_calls s s')"
  then have "evaluate_generations self PT prompt correctness n pre_ctx post_ctx (Some ref) alt s
      = (out, s')"
    by (simp add: evaluate_prompt_correctness_def)
  from check_calls_use_reference [OF this c] show "r = ref" .
qed

theorem caller_overrides_respected_witness:
  "\<exists>r s'. evaluate_prompt_correctness (stub_eval []) stub_perturb ''Capital of France?'' ''Paris'' 5
             None None (Some [''France's capital?'']) init_state = (Inr r, s')
     \<and> perturbed_prompts r = [''Capital of France?'', ''France's capital?'']
     \<and> reference_generation r = ''Paris''
     \<and> filter is_perturb_call (new_calls init_state s') = []
     \<and> map call_input (filter is_llm_call (new_calls init_state s'))
         = [''Capital of France?'', ''France's capital?'']"
proof -
  have "\<exists>r s'. evaluate_prompt_correctness (stub_eval []) stub_perturb ''Capital of France?''
             ''Paris'' 5 None None (Some [''France's capital?'']) init_state = (Inr r, s')"
    by (simp add: run_defs)
  then obtain r s' where
    h: "evaluate_prompt_correctness (stub_eval []) stub_perturb ''Capital of France?''
             ''Paris'' 5 None None (Some [''France's capital?'']) init_state = (Inr r, s')"
    by blast
  then have g: "evaluate_generations (stub_eval []) stub_perturb ''Capital of France?'' correctness 5
             None None (Some ''Paris'') (Some [''France's capital?'']) init_state = (Inr r, s')"
    by (simp add: evaluate_prompt_correctness_def)
  note T = caller_overrides_respected [where self = "stub_eval []" and PT = stub_perturb
      and prompt = "''Capital of France?''" and et = correctness and n = 5 and n' = 1
      and pre_ctx = None and post_ctx = None and refg = "Some ''Paris''"
      and ps = "[''France's capital?'']" and s = init_state and ref = "''Paris''"
      and alt = "Some [''France's capital?'']"]
  from T g have a: "\<forall>c \<in> set (new_calls init_state s'). \<not> is_perturb_call c"
    and b: "perturbed_prompts r = [''Capital of France?'', ''France's capital?'']"
    by simp_all
  from T h obtain cands where
    c: "cands = [''France's capital?'']"
    "reference_generation r = ''Paris''"
    "filter is_llm_call (new_calls init_state s')
       = fetch_calls None None (''Capital of France?'' # cands) (perturbed_generations r)"
    by auto
  have "length (perturbed_generations r) = 2"
    using g by (auto simp: run_defs)
  with c have "map call_input (filter is_llm_call (new_calls init_state s'))
         = [''Capital of France?'', ''France's capital?'']"
    by (simp add: call_input_fetch_calls construct_llm_input_def)
  with a b c h show ?thesis by (simp add: filter_empty_conv)
qed

text \<open>
  C6. Prompt assembly is a function of its four arguments only. With neither context it
  returns the prompt; with a prefix context it returns the prefix, the delimiter and the
  prompt; with a suffix context it appends the delimiter and the suffix; with both it
  returns prefix, delimiter, prompt, delimiter, suffix.
\<close>

theorem construct_llm_input_assembly:
  "construct_llm_input p None None d = p
   \<and> construct_llm_input p (Some pre) None d = pre @ d @ p
   \<and> construct_llm_input p None (Some post) d = p @ d @ post
   \<and> construct_llm_input p (Some pre) (Some post) d = pre @ d @ p @ d @ post"
  by (simp add: construct_llm_input_def)

text \<open>
  C7. Every input a run sends to the model, for the reference and for each evaluated
  prompt, whether the run returns or raises, is some prompt assembled with the two
  contexts of the call: it starts with the prefix context and a blank when a prefix
  context is given, and ends with a blank and the suffix context when a suffix context is
  given. The paraphraser is called on the original prompt alone, so the contexts are never
  paraphrased.
\<close>

theorem contexts_frame_every_model_input:
  assumes "evaluate_generations self PT prompt et n pre_ctx post_ctx refg perts s = (out, s')"
  shows "(\<forall>inp res. LLMCall inp res \<in> set (new_calls s s') \<longrightarrow>
            (\<exists>p. inp = construct_llm_input p pre_ctx post_ctx '' '')
          \<and> (\<forall>a. pre_ctx = Some a \<longrightarrow> prefix (a @ '' '') inp)
          \<and> (\<forall>b. post_ctx = Some b \<longrightarrow> suffix ('' '' @ b) inp))
       \<and> (\<forall>texts b k t d. PerturbTextCall texts b k t d \<in> set (new_calls s s')
            \<longrightarrow> texts = [prompt])"
proof (intro conjI allI impI)
  fix inp res
  assume "LLMCall inp res \<in> set (new_calls s s')"
  from evaluate_generations_call_forms [OF assms this]
  obtain p where p: "inp = construct_llm_input p pre_ctx post_ctx '' ''" by auto
  then show "\<exists>p. inp = construct_llm_input p pre_ctx post_ctx '' ''" ..
  fix a assume "pre_ctx = Some a"
  with p show "prefix (a @ '' '') inp" by (simp add: construct_llm_input_prefix)
next
  fix inp res b
  assume "LLMCall inp res \<in> set (new_calls s s')" and b: "post_ctx = Some b"
  from evaluate_generations_call_forms [OF assms this(1)]
  obtain p where "inp = construct_llm_input p pre_ctx post_ctx '' ''" by auto
  with b construct_llm_input_suffix [of "'' ''" b p pre_ctx]
  show "suffix ('' '' @ b) inp" by simp
next
  fix texts b k t d
  assume "PerturbTextCall texts b k t d \<in> set (new_calls s s')"
  from evaluate_generations_call_forms [OF assms this]
  show "texts = [prompt]" by auto
qed

theorem contexts_frame_every_model_input_witness:
  "\<exists>out s'. evaluate_generations (stub_eval []) stub_perturb ''What is 2+2?''
               robustness 2 (Some ''Context:'') (Some ''End.'') None None init_state = (out, s')
     \<and> LLMCall ''Context: Sum of 2 and 2? End.'' (Inr ''4'') \<in> set (new_calls init_state s')
     \<and> prefix ''Context: '' ''Context: Sum of 2 and 2? End.''
     \<and> suffix '' End.'' ''Context: Sum of 2 and 2? End.''
     \<and> PerturbTextCall [''What is 2+2?''] 1 2 (Some 0)
          (Inr [[''What is 2+2?'', ''How much is 2 plus 2?'', ''Sum of 2 and 2?'']])
         \<in> set (new_calls init_state s')"
proof -
  obtain out s' where
    h: "evaluate_generations (stub_eval []) stub_perturb ''What is 2+2?''
               robustness 2 (Some ''Context:'') (Some ''End.'') None None init_state = (out, s')"
    by (cases "evaluate_generations (stub_eval []) stub_perturb ''What is 2+2?''
               robustness 2 (Some ''Context:'') (Some ''End.'') None None init_state")
  have m: "LLMCall ''Context: Sum of 2 and 2? End.'' (Inr ''4'') \<in> set (new_calls init_state s')"
    and p: "PerturbTextCall [''What is 2+2?''] 1 2 (Some 0)
          (Inr [[''What is 2+2?'', ''How much is 2 plus 2?'', ''Sum of 2 and 2?'']])
         \<in> set (new_calls init_state s')"
    using h by (auto simp: run_defs)
  from contexts_frame_every_model_input [OF h] m have
    "prefix (''Context:'' @ '' '') ''Context: Sum of 2 and 2? End.''"
    "suffix ('' '' @ ''End.'') ''Context: Sum of 2 and 2? End.''"
    by blast+
  then have "prefix ''Context: '' ''Context: Sum of 2 and 2? End.''
     \<and> suffix '' End.'' ''Context: Sum of 2 and 2? End.''"
    by simp
  with h m p show ?thesis by blast
qed

text \<open>
  C8. Suppose the paraphraser returns, as its first row, the original prompt followed by
  \<^verbatim>\<open>perturbations_per_sample\<close> paraphrases. Then \<^verbatim>\<open>generate_alternative_prompts\<close>
  returns the paraphrases, \<^verbatim>\<open>perturbations_per_sample\<close> of them, when
  \<^verbatim>\<open>return_original\<close> is false, and the original prompt followed by the paraphrases,
  one element more, when it is true.
\<close>

theorem generate_alternative_prompts_count:
  assumes "PT [prompt] 1 n temp (world s) = (Inr ((prompt # paras) # rest), w')"
    and "int (length paras) = n"
  shows "(\<exists>xs s'. generate_alternative_prompts PT prompt n temp False s = (Inr xs, s')
            \<and> xs = paras \<and> int (length xs) = n)
       \<and> (\<exists>xs s'. generate_alternative_prompts PT prompt n temp True s = (Inr xs, s')
            \<and> xs = prompt # paras \<and> int (length xs) = n + 1 \<and> hd xs = prompt)"
  using assms
  by (simp add: generate_alternative_prompts_def andthen_def call_perturb_text_def)

theorem generate_alternative_prompts_count_witness:
  "stub_perturb [''What is 2+2?''] 1 2 (Some 0) (world init_state)
     = (Inr ([''What is 2+2?'', ''How much is 2 plus 2?'', ''Sum of 2 and 2?''] # []), ())
   \<and> int (length [''How much is 2 plus 2?'', ''Sum of 2 and 2?'']) = 2
   \<and> (\<exists>s'. generate_alternative_prompts stub_perturb ''What is 2+2?'' 2 (Some 0) False init_state
         = (Inr [''How much is 2 plus 2?'', ''Sum of 2 and 2?''], s'))
   \<and> (\<exists>s'. generate_alternative_prompts stub_perturb ''What is 2+2?'' 2 (Some 0) True init_state
         = (Inr [''What is 2+2?'', ''How much is 2 plus 2?'', ''Sum of 2 and 2?''], s'))"
proof -
  have a: "stub_perturb [''What is 2+2?''] 1 2 (Some 0) (world init_state)
     = (Inr ([''What is 2+2?'', ''How much is 2 plus 2?'', ''Sum of 2 and 2?''] # []), ())"
    by (simp add: stub_perturb_def)
  have b: "int (length [''How much is 2 plus 2?'', ''Sum of 2 and 2?'']) = 2"
    by simp
  from generate_alternative_prompts_count [where PT = stub_perturb and s = init_state, OF a b] a b
  show ?thesis by simp
qed

text \<open>
  C9. For a model object whose \<^verbatim>\<open>temperature\<close> attribute is the float 0.7, whose
  \<^verbatim>\<open>_llm_type\<close> is a string and which has no \<^verbatim>\<open>model_name\<close>,
  \<^verbatim>\<open>_get_generation_details\<close> returns the provider and the temperature and omits the
  model name, and the value stored under the temperature key is the float itself, not a
  string.
\<close>

theorem generation_details_keep_attribute_values:
  "get_generation_details (stub_eval [])
     = [(''Provider'', PyStr ''openai''), (''Temperature'', PyFloat 0.7)]
   \<and> (\<forall>t. map_of (get_generation_details (stub_eval [])) ''Temperature'' \<noteq> Some (PyStr t))"
  by (simp add: get_generation_details_def stub_eval_def stub_llm_def)

text \<open>
  C10. In a run of \<^verbatim>\<open>_evaluate_generations\<close> without supplied candidates whose
  reference is available (the caller supplied it, or the model answered the reference
  fetch), the paraphraser is run exactly once, at the world the reference stage left, on
  the one-element list holding the original prompt, with batch size 1, the given number of
  perturbations and temperature 0.0, whatever the mode and the other arguments, and the one
  paraphrase call recorded carries what the paraphraser answered. When the reference fetch
  raises, the run raises the same exception and makes no other call. A run of
  \<^verbatim>\<open>evaluate_prompt_correctness\<close> fetches no reference, so it always runs the
  paraphraser, at the world it started in.
\<close>

theorem paraphraser_invoked_after_reference:
  "(evaluate_generations self PT prompt et n pre_ctx post_ctx refg None s = (out, s')
      \<longrightarrow> (\<forall>ref w1.
             (case refg of
                None \<Rightarrow> generate (llm self)
                           (construct_llm_input prompt pre_ctx post_ctx '' '') (world s)
                         = (Inr ref, w1)
              | Some x \<Rightarrow> w1 = world s)
             \<longrightarrow> (\<exists>d w2. PT [prompt] 1 n (Some 0) w1 = (d, w2)
                    \<and> filter is_perturb_call (new_calls s s')
                        = [PerturbTextCall [prompt] 1 n (Some 0) d]))
        \<and> (\<forall>e w1. refg = None
               \<and> generate (llm self)
                    (construct_llm_input prompt pre_ctx post_ctx '' '') (world s) = (Inl e, w1)
             \<longrightarrow> out = Inl e \<and> world s' = w1
               \<and> new_calls s s'
                   = [LLMCall (construct_llm_input prompt pre_ctx post_ctx '' '') (Inl e)]))
   \<and> (evaluate_prompt_correctness self PT prompt refgen n pre_ctx post_ctx None s = (out, s')
      \<longrightarrow> (\<exists>d w2. PT [prompt] 1 n (Some 0) (world s) = (d, w2)
             \<and> filter is_perturb_call (new_calls s s')
                 = [PerturbTextCall [prompt] 1 n (Some 0) d]))"
proof (intro conjI impI allI)
  fix ref w1
  assume run: "evaluate_generations self PT prompt et n pre_ctx post_ctx refg None s = (out, s')"
    and ok: "case refg of
                None \<Rightarrow> generate (llm self)
                           (construct_llm_input prompt pre_ctx post_ctx '' '') (world s)
                         = (Inr ref, w1)
              | Some x \<Rightarrow> w1 = world s"
  from paraphrase_stage [OF run] ok
  show "\<exists>d w2. PT [prompt] 1 n (Some 0) w1 = (d, w2)
          \<and> filter is_perturb_call (new_calls s s') = [PerturbTextCall [prompt] 1 n (Some 0) d]"
    by (cases refg) auto
next
  fix e w1
  assume run: "evaluate_generations self PT prompt et n pre_ctx post_ctx refg None s = (out, s')"
    and bad: "refg = None
               \<and> generate (llm self)
                    (construct_llm_input prompt pre_ctx post_ctx '' '') (world s) = (Inl e, w1)"
  from paraphrase_stage [OF run] bad
  have "out = Inl e \<and> world s' = w1
      \<and> new_calls s s' = [LLMCall (construct_llm_input prompt pre_ctx post_ctx '' '') (Inl e)]"
    by auto
  then show "out = Inl e" "world s' = w1"
    "new_calls s s' = [LLMCall (construct_llm_input prompt pre_ctx post_ctx '' '') (Inl e)]"
    by simp_all
next
  assume "evaluate_prompt_correctness self PT prompt refgen n pre_ctx post_ctx None s = (out, s')"
  then have "evaluate_generations self PT prompt correctness n pre_ctx post_ctx (Some refgen)
      None s = (out, s')"
    by (simp add: evaluate_prompt_correctness_def)
  from paraphrase_stage [OF this]
  show "\<exists>d w2. PT [prompt] 1 n (Some 0) (world s) = (d, w2)
          \<and> filter is_perturb_call (new_calls s s') = [PerturbTextCall [prompt] 1 n (Some 0) d]"
    by auto
qed

theorem paraphraser_invoked_after_reference_witness:
  "\<exists>out s'. evaluate_generations (echo_eval []) counting_perturb ''What is 2+2?'' robustness 2
               None None None None start_state = (out, s')
     \<and> generate (llm (echo_eval [])) ''What is 2+2?'' (world start_state)
         = (Inr ''What is 2+2?'', (1, 0))
     \<and> counting_perturb [''What is 2+2?''] 1 2 (Some 0) (1, 0)
         = (Inr [[''What is 2+2?'', ''How much is 2 plus 2?'', ''Sum of 2 and 2?'']], (1, 1))
     \<and> filter is_perturb_call (new_calls start_state s')
         = [PerturbTextCall [''What is 2+2?''] 1 2 (Some 0)
              (Inr [[''What is 2+2?'', ''How much is 2 plus 2?'', ''Sum of 2 and 2?'']])]"
proof -
  obtain out s' where
    h: "evaluate_generations (echo_eval []) counting_perturb ''What is 2+2?'' robustness 2
               None None None None start_state = (out, s')"
    by (cases "evaluate_generations (echo_eval []) counting_perturb ''What is 2+2?'' robustness 2
               None None None None start_state")
  have g: "generate (llm (echo_eval [])) ''What is 2+2?'' (world start_state)
         = (Inr ''What is 2+2?'', (1, 0))"
    by (simp add: echo_defs)
  have p: "counting_perturb [''What is 2+2?''] 1 2 (Some 0) (1, 0)
         = (Inr [[''What is 2+2?'', ''How much is 2 plus 2?'', ''Sum of 2 and 2?'']], (1, 1))"
    by (simp add: echo_defs)
  from paraphraser_invoked_after_reference [where self = "echo_eval []" and PT = counting_perturb
      and prompt = "''What is 2+2?''" and et = robustness and n = 2 and pre_ctx = None
      and post_ctx = None and refg = None and s = start_state and out = out and s' = s'] h
  have "\<forall>ref w1. generate (llm (echo_eval []))
            (construct_llm_input ''What is 2+2?'' None None '' '') (world start_state) = (Inr ref, w1)
          \<longrightarrow> (\<exists>d w2. counting_perturb [''What is 2+2?''] 1 2 (Some 0) w1 = (d, w2)
                \<and> filter is_perturb_call (new_calls start_state s')
                    = [PerturbTextCall [''What is 2+2?''] 1 2 (Some 0) d])"
    by simp
  with g have "\<exists>d w2. counting_perturb [''What is 2+2?''] 1 2 (Some 0) (1, 0) = (d, w2)
                \<and> filter is_perturb_call (new_calls start_state s')
                    = [PerturbTextCall [''What is 2+2?''] 1 2 (Some 0) d]"
    by (simp add: construct_llm_input_def)
  with p have "filter is_perturb_call (new_calls start_state s')
         = [PerturbTextCall [''What is 2+2?''] 1 2 (Some 0)
              (Inr [[''What is 2+2?'', ''How much is 2 plus 2?'', ''Sum of 2 and 2?'']])]"
    by auto
  with h g p show ?thesis by blast
qed

text \<open>
  Without the condition on the reference the statement fails: in a robustness run without
  supplied candidates whose model raises on the original prompt, the only call is the
  failed reference fetch, and the paraphraser's counter stays at 0.
\<close>

theorem paraphraser_not_invoked_counterexample:
  "fst (evaluate_prompt_robustness (echo_eval [''What is 2+2?'']) counting_perturb
          ''What is 2+2?'' 2 None None None start_state) = Inl (Exception ''timeout'')
   \<and> new_calls start_state
        (snd (evaluate_prompt_robustness (echo_eval [''What is 2+2?'']) counting_perturb
          ''What is 2+2?'' 2 None None None start_state))
       = [LLMCall ''What is 2+2?'' (Inl (Exception ''timeout''))]
   \<and> filter is_perturb_call (new_calls start_state
        (snd (evaluate_prompt_robustness (echo_eval [''What is 2+2?'']) counting_perturb
          ''What is 2+2?'' 2 None None None start_state))) = []
   \<and> world (snd (evaluate_prompt_robustness (echo_eval [''What is 2+2?'']) counting_perturb
          ''What is 2+2?'' 2 None None None start_state)) = (1, 0)"
  by (simp add: run_defs echo_defs)

end
